theory Spec2Isabelle
  imports Main "HOL-Library.AList"
begin

section \<open>The build script \<open>build.py\<close>\<close>

text \<open>
  The script drives an external build system: it creates directories, changes the working
  directory, runs external commands, walks the install tree to sign and to zip it. The
  embedding keeps the script's functions under their names and makes their effects
  explicit: every function that acts on the process or the file system is a state
  transformer on a \<open>world\<close> that returns the exception it raised, if any.
\<close>

subsection \<open>Strings\<close>

definition startswith :: "string \<Rightarrow> string \<Rightarrow> bool" where
  \<comment> \<open>\<open>s.startswith(p)\<close>\<close>
  "startswith s p = (take (length p) s = p)"

subsection \<open>Exceptions\<close>

datatype exn =
    Exception string
  | KeyError string
  | FileNotFoundError string
  | FileExistsError string
  | NotADirectoryError string
  | IsADirectoryError string
  | PermissionError string
  | CalledProcessError int "string list"

subsection \<open>Platform detection (lines 12-20)\<close>

definition get_platform :: "string \<Rightarrow> exn + string" where
  "get_platform sys_platform =
     (if startswith sys_platform ''win'' then Inr ''win''
      else if sys_platform = ''darwin'' then Inr ''osx''
      else if startswith sys_platform ''linux'' then Inr ''linux''
      else Inl (Exception (''Unsupported platform '' @ sys_platform)))"

subsection \<open>Paths: the parts of \<open>os.path\<close> the script uses\<close>

text \<open>
  Python binds \<open>os.path\<close> to \<open>posixpath\<close> on Linux and macOS and to \<open>ntpath\<close> on Windows.
  The two differ in the separator: \<open>/\<close> on POSIX; backslash, with \<open>/\<close> accepted as well, on
  Windows. Drive letters and UNC prefixes of Windows paths are not modelled: a path is
  absolute when it starts with a separator.
\<close>

datatype flavour = Posix | Nt

definition sep :: "flavour \<Rightarrow> char" where
  "sep fl = (case fl of Posix \<Rightarrow> CHR ''/'' | Nt \<Rightarrow> CHR 0x5C)"

definition is_sep :: "flavour \<Rightarrow> char \<Rightarrow> bool" where
  "is_sep fl c = (c = CHR ''/'' \<or> (fl = Nt \<and> c = CHR 0x5C))"

fun split_on :: "(char \<Rightarrow> bool) \<Rightarrow> string \<Rightarrow> string list" where
  \<comment> \<open>\<open>s.split(sep)\<close> for one-character separators: the fields between them\<close>
  "split_on P [] = [[]]"
| "split_on P (c # cs) =
     (if P c then [] # split_on P cs
      else (case split_on P cs of [] \<Rightarrow> [[c]] | x # xs \<Rightarrow> (c # x) # xs))"

fun str_join :: "string \<Rightarrow> string list \<Rightarrow> string" where
  \<comment> \<open>\<open>s.join(xs)\<close>\<close>
  "str_join s [] = []"
| "str_join s [x] = x"
| "str_join s (x # y # ys) = x @ s @ str_join s (y # ys)"

definition join2 :: "flavour \<Rightarrow> string \<Rightarrow> string \<Rightarrow> string" where
  \<comment> \<open>one round of the loop of \<open>os.path.join\<close>\<close>
  "join2 fl path b =
     (if b \<noteq> [] \<and> is_sep fl (hd b) then b
      else if path = [] \<or> is_sep fl (last path) then path @ b
      else path @ [sep fl] @ b)"

definition os_path_join :: "flavour \<Rightarrow> string \<Rightarrow> string list \<Rightarrow> string" where
  \<comment> \<open>\<open>os.path.join(a, *p)\<close>\<close>
  "os_path_join fl a p = foldl (join2 fl) a p"

definition norm_step :: "bool \<Rightarrow> string list \<Rightarrow> string \<Rightarrow> string list" where
  \<comment> \<open>the body of the loop of \<open>normpath\<close> over the components\<close>
  "norm_step initial_slashes new_comps cmp =
     (if cmp = [] \<or> cmp = ''.'' then new_comps
      else if cmp \<noteq> ''..'' \<or> (\<not> initial_slashes \<and> new_comps = [])
              \<or> (new_comps \<noteq> [] \<and> last new_comps = ''..'')
        then new_comps @ [cmp]
      else if new_comps \<noteq> [] then butlast new_comps
      else new_comps)"

definition os_path_normpath :: "flavour \<Rightarrow> string \<Rightarrow> string" where
  "os_path_normpath fl path =
     (if path = [] then ''.''
      else
        let initial_slashes =
              (if is_sep fl (hd path)
               then (if fl = Posix \<and> startswith path ''//'' \<and> \<not> startswith path ''///''
                     then 2 else 1)
               else (0::nat));
            comps = foldl (norm_step (initial_slashes \<noteq> 0)) [] (split_on (is_sep fl) path);
            path' = replicate initial_slashes (sep fl) @ str_join [sep fl] comps
        in if path' = [] then ''.'' else path')"

definition os_path_splitext :: "flavour \<Rightarrow> string \<Rightarrow> string \<times> string" where
  \<comment> \<open>\<open>genericpath._splitext\<close>: the extension starts at the last dot of the last component,
      unless only dots come before it there\<close>
  "os_path_splitext fl p =
     (let base = rev (takeWhile (\<lambda>c. \<not> is_sep fl c) (rev p));
          dir = take (length p - length base) p;
          ext = rev (takeWhile (\<lambda>c. c \<noteq> CHR ''.'') (rev base))
      in if length ext < length base
            \<and> dropWhile (\<lambda>c. c = CHR ''.'') (take (length base - length ext - 1) base) \<noteq> []
         then (dir @ take (length base - length ext - 1) base,
               drop (length base - length ext - 1) base)
         else (p, []))"

subsection \<open>The file system\<close>

text \<open>
  A directory tree of regular files and directories; a directory lists its entries in the
  order in which the system enumerates them. A file holds bytes, or, when it is a zip
  archive, the list of its members (internal name and content) in the order they were
  written. \<open>Denied\<close> is a regular file that the process may not open. Symbolic links and
  unreadable directories are not modelled.
\<close>

datatype fdata = Bytes string | Entries "(string \<times> fdata) list"

datatype node = File fdata | Denied | Dir "(string \<times> node) list"

primrec fs_lookup :: "node \<Rightarrow> string list \<Rightarrow> node option" where
  "fs_lookup n [] = Some n"
| "fs_lookup n (c # cs) =
     (case n of
        Dir es \<Rightarrow> (case map_of es c of None \<Rightarrow> None | Some m \<Rightarrow> fs_lookup m cs)
      | _ \<Rightarrow> None)"

primrec fs_put :: "string list \<Rightarrow> node \<Rightarrow> node \<Rightarrow> node" where
  \<comment> \<open>create or replace the entry at a path whose parent directory exists\<close>
  "fs_put [] x n = x"
| "fs_put (c # cs) x n =
     (case n of
        Dir es \<Rightarrow>
          (if cs = [] then Dir (AList.update c x es)
           else (case map_of es c of
                   None \<Rightarrow> n
                 | Some m \<Rightarrow> Dir (AList.update c (fs_put cs x m) es)))
      | _ \<Rightarrow> n)"

primrec fs_remove :: "string list \<Rightarrow> node \<Rightarrow> node" where
  \<comment> \<open>unlink the entry at a path, with everything below it\<close>
  "fs_remove [] n = n"
| "fs_remove (c # cs) n =
     (case n of
        Dir es \<Rightarrow>
          (if cs = [] then Dir (AList.delete c es)
           else (case map_of es c of
                   None \<Rightarrow> n
                 | Some m \<Rightarrow> Dir (AList.update c (fs_remove cs m) es)))
      | _ \<Rightarrow> n)"

primrec fresh_dirs :: "string list \<Rightarrow> node" where
  "fresh_dirs [] = Dir []"
| "fresh_dirs (c # cs) = Dir [(c, fresh_dirs cs)]"

primrec fs_makedirs :: "string list \<Rightarrow> node \<Rightarrow> node option" where
  \<comment> \<open>\<open>os.makedirs\<close> on components: the missing directories of the path are created;
      \<open>None\<close> when the path exists already or runs through a file\<close>
  "fs_makedirs [] n = None"
| "fs_makedirs (c # cs) n =
     (case n of
        Dir es \<Rightarrow>
          (case map_of es c of
             None \<Rightarrow> Some (Dir (es @ [(c, fresh_dirs cs)]))
           | Some m \<Rightarrow>
               (case fs_makedirs cs m of
                  None \<Rightarrow> None
                | Some m' \<Rightarrow> Some (Dir (AList.update c m' es))))
      | _ \<Rightarrow> None)"

subsection \<open>The process and its environment\<close>

text \<open>
  What the script reads from outside: the platform identifier, the environment variables,
  the directory of the script, the home directory of the password database, and the exit
  status of every external command (given the working directory and the argument
  list). An external command is taken to leave the directory trees that the script reads
  as they are; it cannot change the working directory of the script's process.
\<close>

record env =
  sys_platform :: string
  environ :: "string \<Rightarrow> string option"
  script_dir :: string
  pw_dir :: string
  exit_status :: "string \<Rightarrow> string list \<Rightarrow> int"

definition os_flavour :: "env \<Rightarrow> flavour" where
  "os_flavour e = (if startswith (sys_platform e) ''win'' then Nt else Posix)"

text \<open>
  The trace lists what the process did that is visible from outside, in order: lines
  printed, external commands run (with the working directory they ran in), and the
  commands dispatched through the command-line framework.
\<close>

datatype event =
    Echo string
  | Exec string "string list"
  | Invoke string "(string \<times> bool) list"

record world =
  fs :: node
  cwd :: string
  trace :: "event list"

type_synonym proc = "world \<Rightarrow> exn option \<times> world"

definition ok :: proc where
  "ok w = (None, w)"

definition raise_exn :: "exn \<Rightarrow> proc" where
  "raise_exn x w = (Some x, w)"

definition then_do :: "proc \<Rightarrow> proc \<Rightarrow> proc" where
  \<comment> \<open>statement sequencing: an exception skips the rest\<close>
  "then_do p q w = (case p w of (None, w') \<Rightarrow> q w' | (Some x, w') \<Rightarrow> (Some x, w'))"

definition bind_val :: "(world \<Rightarrow> (exn + 'a) \<times> world) \<Rightarrow> ('a \<Rightarrow> proc) \<Rightarrow> proc" where
  "bind_val p q w = (case p w of (Inl x, w') \<Rightarrow> (Some x, w') | (Inr v, w') \<Rightarrow> q v w')"

fun for_each :: "('a \<Rightarrow> proc) \<Rightarrow> 'a list \<Rightarrow> proc" where
  \<comment> \<open>a \<open>for\<close> loop over a list\<close>
  "for_each body [] w = (None, w)"
| "for_each body (x # xs) w =
     (case body x w of (None, w') \<Rightarrow> for_each body xs w' | (Some err, w') \<Rightarrow> (Some err, w'))"

subsection \<open>System calls and library functions\<close>

text \<open>
  The system resolves a path against the working directory, component by component; an
  empty path names nothing. A component \<open>..\<close> is cancelled against the component before
  it without looking that one up, where the system first resolves it: paths in which \<open>..\<close>
  follows a name that is missing or is a file are outside the model. The script passes no
  path with \<open>..\<close> to the system (the install prefix with \<open>..\<close> is an argument of the
  external command only).
\<close>

definition resolve :: "flavour \<Rightarrow> string \<Rightarrow> string \<Rightarrow> string list option" where
  "resolve fl dir path =
     (if path = [] then None
      else Some (foldl (norm_step True) []
                   (split_on (is_sep fl)
                      (if is_sep fl (hd path) then path else dir @ [sep fl] @ path))))"

definition abspath_of :: "flavour \<Rightarrow> string list \<Rightarrow> string" where
  "abspath_of fl cs = sep fl # str_join [sep fl] cs"

definition os_getcwd :: "world \<Rightarrow> string" where
  "os_getcwd w = cwd w"

definition os_chdir :: "flavour \<Rightarrow> string \<Rightarrow> proc" where
  "os_chdir fl path w =
     (case resolve fl (cwd w) path of
        None \<Rightarrow> (Some (FileNotFoundError path), w)
      | Some cs \<Rightarrow>
          (case fs_lookup (fs w) cs of
             None \<Rightarrow> (Some (FileNotFoundError path), w)
           | Some (Dir es) \<Rightarrow> (None, w\<lparr>cwd := abspath_of fl cs\<rparr>)
           | Some _ \<Rightarrow> (Some (NotADirectoryError path), w)))"

definition os_path_isdir :: "flavour \<Rightarrow> string \<Rightarrow> world \<Rightarrow> bool" where
  "os_path_isdir fl path w =
     (case resolve fl (cwd w) path of
        None \<Rightarrow> False
      | Some cs \<Rightarrow> (case fs_lookup (fs w) cs of Some (Dir es) \<Rightarrow> True | _ \<Rightarrow> False))"

definition os_makedirs :: "flavour \<Rightarrow> string \<Rightarrow> proc" where
  \<comment> \<open>a path that exists raises \<open>FileExistsError\<close>, one that runs through a file
      \<open>NotADirectoryError\<close>\<close>
  "os_makedirs fl path w =
     (case resolve fl (cwd w) path of
        None \<Rightarrow> (Some (FileNotFoundError path), w)
      | Some cs \<Rightarrow>
          (case fs_makedirs cs (fs w) of
             None \<Rightarrow>
               (case fs_lookup (fs w) cs of
                  None \<Rightarrow> (Some (NotADirectoryError path), w)
                | Some n \<Rightarrow> (Some (FileExistsError path), w))
           | Some n \<Rightarrow> (None, w\<lparr>fs := n\<rparr>)))"

definition shutil_rmtree_ignore_errors :: "flavour \<Rightarrow> string \<Rightarrow> proc" where
  \<comment> \<open>\<open>shutil.rmtree(path, ignore_errors=True)\<close>: a path that is not a directory is left\<close>
  "shutil_rmtree_ignore_errors fl path w =
     (case resolve fl (cwd w) path of
        None \<Rightarrow> (None, w)
      | Some cs \<Rightarrow>
          (case fs_lookup (fs w) cs of
             Some (Dir es) \<Rightarrow>
               (None, w\<lparr>fs := (if cs = [] then Dir [] else fs_remove cs (fs w))\<rparr>)
           | _ \<Rightarrow> (None, w)))"

definition is_dir :: "node \<Rightarrow> bool" where
  "is_dir n = (case n of Dir es \<Rightarrow> True | _ \<Rightarrow> False)"

definition dirnames :: "(string \<times> node) list \<Rightarrow> string list" where
  "dirnames es = map fst (filter (\<lambda>(n, m). is_dir m) es)"

definition filenames :: "(string \<times> node) list \<Rightarrow> string list" where
  "filenames es = map fst (filter (\<lambda>(n, m). \<not> is_dir m) es)"

text \<open>
  \<open>os.walk(top)\<close>, top down: a directory yields its own triple, then the triples of its
  subdirectories in listing order; what cannot be listed yields nothing (\<open>onerror\<close> is not
  set). The generator lists a directory when the iteration reaches it; as no loop body of
  the script adds or removes an entry below the directory it walks, the listing is taken
  when the loop starts.
\<close>

function walk :: "flavour \<Rightarrow> string \<Rightarrow> node \<Rightarrow> (string \<times> string list \<times> string list) list"
  and walk_subdirs ::
    "flavour \<Rightarrow> string \<Rightarrow> (string \<times> node) list \<Rightarrow> (string \<times> string list \<times> string list) list"
  where
  "walk fl t (Dir es) = (t, dirnames es, filenames es) # walk_subdirs fl t es"
| "walk fl t (File d) = []"
| "walk fl t Denied = []"
| "walk_subdirs fl t [] = []"
| "walk_subdirs fl t ((n, m) # es) = walk fl (join2 fl t n) m @ walk_subdirs fl t es"
  by pat_completeness auto
termination
  by (relation "measure (\<lambda>x. case x of
          Inl (fl, t, n) \<Rightarrow> size n
        | Inr (fl, t, es) \<Rightarrow> size_list (size_prod (\<lambda>c. 0) size) es)") auto

definition os_walk :: "flavour \<Rightarrow> string \<Rightarrow> world \<Rightarrow> (string \<times> string list \<times> string list) list"
  where
  "os_walk fl t w =
     (case resolve fl (cwd w) t of
        None \<Rightarrow> []
      | Some cs \<Rightarrow> (case fs_lookup (fs w) cs of None \<Rightarrow> [] | Some n \<Rightarrow> walk fl t n))"

definition click_echo :: "string \<Rightarrow> proc" where
  "click_echo msg w = (None, w\<lparr>trace := trace w @ [Echo msg]\<rparr>)"

definition click_secho :: "string \<Rightarrow> proc" where
  \<comment> \<open>the colour of the line is not modelled\<close>
  "click_secho msg w = (None, w\<lparr>trace := trace w @ [Echo msg]\<rparr>)"

definition subprocess_check_call :: "env \<Rightarrow> string list \<Rightarrow> proc" where
  "subprocess_check_call e args w =
     (let w' = w\<lparr>trace := trace w @ [Exec (cwd w) args]\<rparr>;
          retcode = exit_status e (cwd w) args
      in if retcode = 0 then (None, w') else (Some (CalledProcessError retcode args), w'))"

definition os_path_expanduser :: "env \<Rightarrow> string \<Rightarrow> string" where
  \<comment> \<open>only the form \<open>~/...\<close> that the script passes is expanded\<close>
  "os_path_expanduser e path =
     (if startswith path ''~/''
      then (let userhome = (case environ e ''HOME'' of None \<Rightarrow> pw_dir e | Some h \<Rightarrow> h)
            in rev (dropWhile (\<lambda>c. c = CHR ''/'') (rev userhome)) @ drop 1 path)
      else path)"

text \<open>
  \<open>zipfile.ZipFile(file, 'w')\<close> creates the file, or truncates the one that is there, and
  returns the archive object, here the resolved path of the file. \<open>ZipFile.write\<close> appends
  one member: the content of the file named, under the internal name that \<open>ZipInfo\<close>
  derives from \<open>arcname\<close>. The script leaves the archive's path alone between the two.
\<close>

definition zip_arcname :: "flavour \<Rightarrow> string \<Rightarrow> string" where
  "zip_arcname fl arcname =
     map (\<lambda>c. if c = sep fl then CHR ''/'' else c)
       (takeWhile (\<lambda>c. c \<noteq> CHR 0x00)
          (dropWhile (is_sep fl) (os_path_normpath fl arcname)))"

definition zipfile_ZipFile :: "flavour \<Rightarrow> string \<Rightarrow> world \<Rightarrow> (exn + string list) \<times> world" where
  "zipfile_ZipFile fl file w =
     (case resolve fl (cwd w) file of
        None \<Rightarrow> (Inl (FileNotFoundError file), w)
      | Some cs \<Rightarrow>
          (if cs = [] then (Inl (IsADirectoryError file), w)
           else
             (case fs_lookup (fs w) (butlast cs) of
                Some (Dir es) \<Rightarrow>
                  (case fs_lookup (fs w) cs of
                     Some (Dir es') \<Rightarrow> (Inl (IsADirectoryError file), w)
                   | Some Denied \<Rightarrow> (Inl (PermissionError file), w)
                   | _ \<Rightarrow> (Inr cs, w\<lparr>fs := fs_put cs (File (Entries [])) (fs w)\<rparr>))
              | _ \<Rightarrow> (Inl (FileNotFoundError file), w))))"

definition zipfile_write :: "flavour \<Rightarrow> string list \<Rightarrow> string \<Rightarrow> string \<Rightarrow> proc" where
  "zipfile_write fl archive_file filename arcname w =
     (case resolve fl (cwd w) filename of
        None \<Rightarrow> (Some (FileNotFoundError filename), w)
      | Some cs \<Rightarrow>
          (case fs_lookup (fs w) cs of
             None \<Rightarrow> (Some (FileNotFoundError filename), w)
           | Some Denied \<Rightarrow> (Some (PermissionError filename), w)
           | Some n \<Rightarrow>
               (case fs_lookup (fs w) archive_file of
                  Some (File (Entries ms)) \<Rightarrow>
                    (let member = (case n of
                            File d \<Rightarrow> (zip_arcname fl arcname, d)
                          | _ \<Rightarrow> (zip_arcname fl arcname @ ''/'', Bytes []))
                     in (None, w\<lparr>fs := fs_put archive_file (File (Entries (ms @ [member]))) (fs w)\<rparr>))
                | _ \<Rightarrow> (Some (Exception ''archive file replaced''), w))))"

subsection \<open>Module constants (lines 23-27)\<close>

record globals =
  SCRIPT_PATH :: string
  IS_BUILD_MACHINE :: bool
  PLATFORM :: string
  INSTALL_ROOT :: string

definition module_globals :: "env \<Rightarrow> exn + globals" where
  \<comment> \<open>the assignments run when the module is loaded; an exception there ends the run\<close>
  "module_globals e =
     (let script_path = script_dir e;
          is_build_machine = ((case environ e ''CI'' of None \<Rightarrow> [] | Some v \<Rightarrow> v) = ''true'')
      in case get_platform (sys_platform e) of
           Inl x \<Rightarrow> Inl x
         | Inr platform \<Rightarrow>
             Inr \<lparr>SCRIPT_PATH = script_path,
                  IS_BUILD_MACHINE = is_build_machine,
                  PLATFORM = platform,
                  INSTALL_ROOT = os_path_join (os_flavour e) script_path [''builds'', ''install'']\<rparr>)"

subsection \<open>The script's functions\<close>

definition get_signtool :: "env \<Rightarrow> globals \<Rightarrow> exn + string option" where
  \<comment> \<open>lines 30-36; on any other platform the function falls off its end and returns \<open>None\<close>\<close>
  "get_signtool e g =
     (if PLATFORM g = ''win'' then
        (case environ e ''WindowsSdkDir'' of
           None \<Rightarrow> Inl (KeyError ''WindowsSdkDir'')
         | Some sdk_dir \<Rightarrow>
             Inr (Some (os_path_join (os_flavour e) sdk_dir [''bin'', ''x86'', ''signtool.exe''])))
      else if PLATFORM g = ''osx'' then Inr (Some ''/usr/bin/codesign'')
      else Inr None)"

definition cd :: "env \<Rightarrow> string \<Rightarrow> proc \<Rightarrow> proc" where
  \<comment> \<open>lines 39-47, used as \<open>with cd(new_dir): body\<close>. The generator runs up to its \<open>yield\<close>
      on entry. When the body raises, the exception is thrown into the generator at the
      \<open>yield\<close>, which no \<open>try\<close> encloses: it leaves the generator there, and the lines after
      the \<open>yield\<close> run only when the body ends normally.\<close>
  "cd e new_dir body w =
     (if new_dir \<noteq> [] then
        (let old_dir = os_getcwd w
         in case os_chdir (os_flavour e) new_dir w of
              (Some x, w1) \<Rightarrow> (Some x, w1)
            | (None, w1) \<Rightarrow>
                (case body w1 of
                   (Some x, w2) \<Rightarrow> (Some x, w2)
                 | (None, w2) \<Rightarrow> os_chdir (os_flavour e) old_dir w2))
      else body w)"

definition mkdir_p :: "env \<Rightarrow> string \<Rightarrow> proc" where
  \<comment> \<open>lines 50-54\<close>
  "mkdir_p e path w =
     (if \<not> os_path_isdir (os_flavour e) path w
      then then_do (click_secho (''Making '' @ path)) (os_makedirs (os_flavour e) path) w
      else (None, w))"

definition unity :: proc where
  "unity = ok"

definition unreal :: proc where
  "unreal = ok"

definition truthy :: "string option \<Rightarrow> bool" where
  \<comment> \<open>the truth value of an optional string: \<open>None\<close> and the empty string are false\<close>
  "truthy v = (case v of None \<Rightarrow> False | Some s \<Rightarrow> s \<noteq> [])"

definition initial_cmake :: "env \<Rightarrow> globals \<Rightarrow> string \<Rightarrow> string option \<Rightarrow> (string \<times> bool) list \<Rightarrow> string list"
  where
  \<comment> \<open>lines 88-100: the argument list of the configuration step; the options dictionary is
      the list of its items in iteration order\<close>
  "initial_cmake e g build_name generator options =
     [''cmake'',
      SCRIPT_PATH g,
      ''-DCMAKE_INSTALL_PREFIX='' @ os_path_join (os_flavour e) ''..'' [''install'', build_name]]
     @ (if truthy generator then [''-G'', (case generator of Some s \<Rightarrow> s | None \<Rightarrow> [])] else [])
     @ (if IS_BUILD_MACHINE g then [''-DCLANG_FORMAT_SUFFIX=none''] else [])
     @ map (\<lambda>(key, v). ''-D'' @ key @ ''='' @ (if v then ''ON'' else ''OFF'')) options"

definition build_lib :: "env \<Rightarrow> globals \<Rightarrow> string \<Rightarrow> string option \<Rightarrow> (string \<times> bool) list \<Rightarrow> proc"
  where
  \<comment> \<open>lines 81-105\<close>
  "build_lib e g build_name generator options =
     (let build_path = os_path_join (os_flavour e) (SCRIPT_PATH g) [''builds'', build_name];
          install_path = os_path_join (os_flavour e) (INSTALL_ROOT g) [build_name]
      in then_do (mkdir_p e build_path)
        (then_do (mkdir_p e install_path)
        (cd e build_path
          (then_do (click_echo (''--- Building '' @ build_name))
          (then_do (subprocess_check_call e (initial_cmake e g build_name generator options))
          (then_do
             (if \<not> IS_BUILD_MACHINE g
              then subprocess_check_call e [''cmake'', ''--build'', ''.'', ''--config'', ''Debug'']
              else ok)
             (subprocess_check_call e
                [''cmake'', ''--build'', ''.'', ''--config'', ''Release'', ''--target'', ''install''])))))))"

definition archive :: "env \<Rightarrow> globals \<Rightarrow> proc" where
  \<comment> \<open>lines 108-122\<close>
  "archive e g =
     then_do (click_echo ''--- Archiving'')
       (bind_val (\<lambda>w. (get_platform (sys_platform e), w)) (\<lambda>platform.
          (let archive_file_path =
                 os_path_join (os_flavour e) (SCRIPT_PATH g)
                   [''builds'', ''discord-rpc-'' @ platform @ ''.zip'']
           in bind_val (zipfile_ZipFile (os_flavour e) archive_file_path) (\<lambda>archive_file.
                (let archive_src_base_path = INSTALL_ROOT g;
                     archive_dst_base_path = ''discord-rpc''
                 in cd e archive_src_base_path
                      (\<lambda>w. for_each (\<lambda>(path, ds, filenames).
                               for_each (\<lambda>fname.
                                 (let fpath = os_path_join (os_flavour e) path [fname];
                                      dst_path = os_path_normpath (os_flavour e)
                                        (os_path_join (os_flavour e) archive_dst_base_path [fpath])
                                  in then_do (click_echo (''Adding '' @ dst_path))
                                       (zipfile_write (os_flavour e) archive_file fpath dst_path)))
                                 filenames)
                             (os_walk (os_flavour e) ''.'' w) w))))))"

definition check_call_args :: "env \<Rightarrow> string option list \<Rightarrow> proc" where
  \<comment> \<open>\<open>subprocess.check_call\<close> on a list that may hold \<open>None\<close>, which it rejects\<close>
  "check_call_args e args =
     (case those args of
        None \<Rightarrow> raise_exn (Exception ''expected str, bytes or os.PathLike object, not NoneType'')
      | Some argv \<Rightarrow> subprocess_check_call e argv)"

definition sign_files :: "env \<Rightarrow> globals \<Rightarrow> string set \<Rightarrow> string option list \<Rightarrow> proc" where
  \<comment> \<open>lines 156-165\<close>
  "sign_files e g signable_extensions sign_command_base =
     then_do (click_echo ''--- Signing'')
       (\<lambda>w. for_each (\<lambda>(path, ds, filenames).
                for_each (\<lambda>fname.
                  (let ext = snd (os_path_splitext (os_flavour e) fname)
                   in if ext \<notin> signable_extensions then ok
                      else
                        (let fpath = os_path_join (os_flavour e) path [fname]
                         in then_do (click_echo (''Sign '' @ fpath))
                              (let sign_command = sign_command_base @ [Some fpath]
                               in check_call_args e sign_command))))
                  filenames)
              (os_walk (os_flavour e) (INSTALL_ROOT g) w) w)"

definition sign :: "env \<Rightarrow> globals \<Rightarrow> proc" where
  \<comment> \<open>lines 125-154\<close>
  "sign e g =
     bind_val (\<lambda>w. (get_signtool e g, w)) (\<lambda>tool.
       if PLATFORM g = ''win'' then
         sign_files e g {''.dll''}
           [tool,
            Some ''sign'',
            Some ''/n'', Some ''Hammer & Chisel Inc.'',
            Some ''/a'',
            Some ''/tr'', Some ''http://timestamp.digicert.com/rfc3161'',
            Some ''/as'',
            Some ''/td'', Some ''sha256'',
            Some ''/fd'', Some ''sha256'']
       else if PLATFORM g = ''osx'' then
         sign_files e g {''.dylib''}
           [tool,
            Some ''--keychain'', Some (os_path_expanduser e ''~/Library/Keychains/login.keychain''),
            Some ''-vvvv'',
            Some ''--deep'',
            Some ''--force'',
            Some ''--sign'', Some ''Developer ID Application: Hammer & Chisel Inc. (53Q6R32WPB)'']
       else click_secho ''Not signing things on this platform yet'')"

definition libs_prepare :: "env \<Rightarrow> bool \<Rightarrow> proc" where
  \<comment> \<open>lines 172-175\<close>
  "libs_prepare e clean =
     then_do (if clean then shutil_rmtree_ignore_errors (os_flavour e) ''builds'' else ok)
       (mkdir_p e ''builds'')"

definition libs_builds :: "env \<Rightarrow> globals \<Rightarrow> proc" where
  \<comment> \<open>lines 177-195\<close>
  "libs_builds e g =
     (if PLATFORM g = ''win'' then
        (let generator32 = Some ''Visual Studio 14 2015'';
             generator64 = Some ''Visual Studio 14 2015 Win64'';
             static_options = [];
             dynamic_options =
               [(''BUILD_SHARED_LIBS'', True),
                (''USE_STATIC_CRT'', True),
                (''SIGN_BUILD'', IS_BUILD_MACHINE g)]
         in then_do (build_lib e g ''win32-static'' generator32 static_options)
           (then_do (build_lib e g ''win32-dynamic'' generator32 dynamic_options)
           (then_do (build_lib e g ''win64-static'' generator64 static_options)
                    (build_lib e g ''win64-dynamic'' generator64 dynamic_options))))
      else if PLATFORM g = ''osx'' then
        then_do (build_lib e g ''osx-static'' None [])
          (build_lib e g ''osx-dynamic'' None
             [(''BUILD_SHARED_LIBS'', True), (''SIGN_BUILD'', IS_BUILD_MACHINE g)])
      else if PLATFORM g = ''linux'' then
        then_do (build_lib e g ''linux-static'' None [])
          (build_lib e g ''linux-dynamic'' None [(''BUILD_SHARED_LIBS'', True)])
      else ok)"

definition libs :: "env \<Rightarrow> globals \<Rightarrow> bool \<Rightarrow> proc" where
  \<comment> \<open>lines 168-195\<close>
  "libs e g clean = then_do (libs_prepare e clean) (libs_builds e g)"

definition ctx_invoke :: "string \<Rightarrow> (string \<times> bool) list \<Rightarrow> proc \<Rightarrow> proc" where
  \<comment> \<open>\<open>ctx.invoke(command, **kwargs)\<close>: the dispatch is written to the trace, then the
      command's callback runs\<close>
  "ctx_invoke name kwargs callback w =
     callback (w\<lparr>trace := trace w @ [Invoke name kwargs]\<rparr>)"

definition cli :: "env \<Rightarrow> globals \<Rightarrow> string option \<Rightarrow> bool \<Rightarrow> proc" where
  \<comment> \<open>lines 57-66; \<open>invoked_subcommand\<close> is the subcommand named on the command line\<close>
  "cli e g invoked_subcommand clean =
     (if invoked_subcommand = None then
        then_do (ctx_invoke ''libs'' [(''clean'', clean)] (libs e g clean))
          (then_do (if IS_BUILD_MACHINE g then ctx_invoke ''sign'' [] (sign e g) else ok)
             (ctx_invoke ''archive'' [] (archive e g)))
      else ok)"

subsection \<open>Well-formed trees and the files below a directory\<close>

definition plain :: "flavour \<Rightarrow> string \<Rightarrow> bool" where
  \<comment> \<open>a name that a directory can list: neither empty nor \<open>.\<close> nor \<open>..\<close>, free of separators\<close>
  "plain fl n = (n \<noteq> [] \<and> n \<noteq> ''.'' \<and> n \<noteq> ''..'' \<and> list_all (\<lambda>c. \<not> is_sep fl c) n)"

function wf_node :: "flavour \<Rightarrow> node \<Rightarrow> bool"
  and wf_entries :: "flavour \<Rightarrow> (string \<times> node) list \<Rightarrow> bool" where
  \<comment> \<open>every directory lists plain names without a NUL character, each once\<close>
  "wf_node fl (Dir es) = wf_entries fl es"
| "wf_node fl (File d) = True"
| "wf_node fl Denied = True"
| "wf_entries fl [] = True"
| "wf_entries fl ((n, m) # es) =
     (plain fl n \<and> CHR 0x00 \<notin> set n \<and> n \<notin> fst ` set es \<and> wf_node fl m \<and> wf_entries fl es)"
  by pat_completeness auto
termination
  by (relation "measure (\<lambda>x. case x of
          Inl (fl, n) \<Rightarrow> size n
        | Inr (fl, es) \<Rightarrow> size_list (size_prod (\<lambda>c. 0) size) es)") auto

function files_of :: "node \<Rightarrow> (string list \<times> node) list"
  and sub_files :: "(string \<times> node) list \<Rightarrow> (string list \<times> node) list" where
  \<comment> \<open>the entries below a directory that are not directories, each with its path relative
      to the directory, a directory's own files before those of its subdirectories\<close>
  "files_of (Dir es) = map (\<lambda>(n, m). ([n], m)) (filter (\<lambda>(n, m). \<not> is_dir m) es) @ sub_files es"
| "files_of (File d) = []"
| "files_of Denied = []"
| "sub_files [] = []"
| "sub_files ((n, m) # es) = map (\<lambda>(p, x). (n # p, x)) (files_of m) @ sub_files es"
  by pat_completeness auto
termination
  by (relation "measure (\<lambda>x. case x of
          Inl n \<Rightarrow> size n
        | Inr es \<Rightarrow> size_list (size_prod (\<lambda>c. 0) size) es)") auto

definition comps_of :: "flavour \<Rightarrow> string \<Rightarrow> string list" where
  \<comment> \<open>the components of an absolute path, as the system resolves it\<close>
  "comps_of fl path = foldl (norm_step True) [] (split_on (is_sep fl) path)"

definition is_abs :: "flavour \<Rightarrow> string \<Rightarrow> bool" where
  "is_abs fl path = (path \<noteq> [] \<and> is_sep fl (hd path))"

definition walk_pairs :: "(string \<times> string list \<times> string list) list \<Rightarrow> (string \<times> string) list" where
  \<comment> \<open>the pairs (directory path, file name) that the two nested loops over a walk visit\<close>
  "walk_pairs ts = concat (map (\<lambda>(path, ds, fns). map (Pair path) fns) ts)"

subsection \<open>Reading a trace\<close>

fun execs :: "event list \<Rightarrow> (string \<times> string list) list" where
  \<comment> \<open>the external commands of a trace, each with the directory it ran in\<close>
  "execs [] = []"
| "execs (Exec d args # tr) = (d, args) # execs tr"
| "execs (ev # tr) = execs tr"

fun invocations :: "event list \<Rightarrow> (string \<times> (string \<times> bool) list) list" where
  \<comment> \<open>the commands dispatched through the command-line framework\<close>
  "invocations [] = []"
| "invocations (Invoke name kwargs # tr) = (name, kwargs) # invocations tr"
| "invocations (ev # tr) = invocations tr"

subsection \<open>The configuration table of the specification\<close>

definition config_table :: "string \<Rightarrow> bool \<Rightarrow> (string \<times> string option \<times> (string \<times> bool) list) list"
  where
  \<comment> \<open>the static table of the specification: per platform tag, the build configurations
      (name, generator, options) in listed order; on Windows and macOS the dynamic
      configurations carry the flag of the automated-build environment\<close>
  "config_table platform is_build_machine =
     (if platform = ''win'' then
        [(''win32-static'', Some ''Visual Studio 14 2015'', []),
         (''win32-dynamic'', Some ''Visual Studio 14 2015'',
            [(''BUILD_SHARED_LIBS'', True), (''USE_STATIC_CRT'', True),
             (''SIGN_BUILD'', is_build_machine)]),
         (''win64-static'', Some ''Visual Studio 14 2015 Win64'', []),
         (''win64-dynamic'', Some ''Visual Studio 14 2015 Win64'',
            [(''BUILD_SHARED_LIBS'', True), (''USE_STATIC_CRT'', True),
             (''SIGN_BUILD'', is_build_machine)])]
      else if platform = ''osx'' then
        [(''osx-static'', None, []),
         (''osx-dynamic'', None, [(''BUILD_SHARED_LIBS'', True), (''SIGN_BUILD'', is_build_machine)])]
      else if platform = ''linux'' then
        [(''linux-static'', None, []),
         (''linux-dynamic'', None, [(''BUILD_SHARED_LIBS'', True)])]
      else [])"

definition default_sequence :: "bool \<Rightarrow> bool \<Rightarrow> (string \<times> (string \<times> bool) list) list" where
  \<comment> \<open>the default run of the specification: \<open>libs\<close> with the clean flag, \<open>sign\<close> in an
      automated-build environment only, \<open>archive\<close>\<close>
  "default_sequence clean is_build_machine =
     [(''libs'', [(''clean'', clean)])]
     @ (if is_build_machine then [(''sign'', [])] else [])
     @ [(''archive'', [])]"

definition debug_cmake :: "string list" where
  \<comment> \<open>the argument list of line 104\<close>
  "debug_cmake = [''cmake'', ''--build'', ''.'', ''--config'', ''Debug'']"

definition release_cmake :: "string list" where
  \<comment> \<open>the argument list of line 105\<close>
  "release_cmake = [''cmake'', ''--build'', ''.'', ''--config'', ''Release'', ''--target'', ''install'']"

definition keeps :: "(world \<Rightarrow> 'a) \<Rightarrow> proc \<Rightarrow> bool" where
  \<comment> \<open>a procedure leaves an observation of the world as it was, whatever its outcome\<close>
  "keeps obs p = (\<forall>w. obs (snd (p w)) = obs w)"

definition dispatched :: "world \<Rightarrow> (string \<times> (string \<times> bool) list) list" where
  "dispatched w = invocations (trace w)"

subsection \<open>Signing, as the specification words it\<close>

definition signable_set :: "string \<Rightarrow> string set" where
  \<comment> \<open>the signable extensions of a platform: dynamic libraries only\<close>
  "signable_set platform =
     (if platform = ''win'' then {''.dll''} else if platform = ''osx'' then {''.dylib''} else {})"

definition signable :: "env \<Rightarrow> globals \<Rightarrow> string list \<times> node \<Rightarrow> bool" where
  \<comment> \<open>a file below the install root whose extension is in the signable set\<close>
  "signable e g f =
     (snd (os_path_splitext (os_flavour e) (last (fst f))) \<in> signable_set (PLATFORM g))"

definition sign_command :: "env \<Rightarrow> globals \<Rightarrow> string \<Rightarrow> string \<Rightarrow> string list" where
  \<comment> \<open>the command line that signs one file with the tool (lines 132-151 and 164)\<close>
  "sign_command e g tool fpath =
     (if PLATFORM g = ''win'' then
        [tool, ''sign'', ''/n'', ''Hammer & Chisel Inc.'', ''/a'',
         ''/tr'', ''http://timestamp.digicert.com/rfc3161'', ''/as'',
         ''/td'', ''sha256'', ''/fd'', ''sha256'']
      else
        [tool, ''--keychain'', os_path_expanduser e ''~/Library/Keychains/login.keychain'',
         ''-vvvv'', ''--deep'', ''--force'',
         ''--sign'', ''Developer ID Application: Hammer & Chisel Inc. (53Q6R32WPB)''])
     @ [fpath]"

subsection \<open>The archive, as the specification words it\<close>

definition archive_comps :: "env \<Rightarrow> globals \<Rightarrow> string list" where
  \<comment> \<open>where the archive lies: \<open>builds/discord-rpc-<platform>.zip\<close> beside the script\<close>
  "archive_comps e g =
     comps_of (os_flavour e) (SCRIPT_PATH g) @ [''builds'', ''discord-rpc-'' @ PLATFORM g @ ''.zip'']"

definition member_of :: "string list \<times> node \<Rightarrow> string \<times> fdata" where
  \<comment> \<open>the archive member of a file below the install root: its internal path is
      \<open>discord-rpc/\<close> joined with the path relative to the root\<close>
  "member_of f =
     (''discord-rpc/'' @ str_join ''/'' (fst f),
      (case snd f of File d \<Rightarrow> d | _ \<Rightarrow> Bytes []))"

definition readable :: "string list \<times> node \<Rightarrow> bool" where
  "readable f = (snd f \<noteq> Denied)"

subsection \<open>Example environments\<close>

definition linux_env :: env where
  \<comment> \<open>a developer's Linux machine on which every external command succeeds\<close>
  "linux_env =
     \<lparr>sys_platform = ''linux'', environ = Map.empty, script_dir = ''/repo'',
      pw_dir = ''/home/dev'', exit_status = (\<lambda>d args. 0)\<rparr>"

definition linux_globals :: globals where
  "linux_globals =
     \<lparr>SCRIPT_PATH = ''/repo'', IS_BUILD_MACHINE = False, PLATFORM = ''linux'',
      INSTALL_ROOT = ''/repo/builds/install''\<rparr>"

definition repo_world :: world where
  \<comment> \<open>a fresh checkout, the working directory at the script\<close>
  "repo_world =
     \<lparr>fs = Dir [(''repo'', Dir [(''build.py'', File (Bytes ''#!''))])],
      cwd = ''/repo'', trace = []\<rparr>"

definition debug_fails :: "string \<Rightarrow> string list \<Rightarrow> int" where
  \<comment> \<open>exit statuses when only the Debug build fails\<close>
  "debug_fails d args = (if args = debug_cmake then 2 else 0)"

definition osx_env :: env where
  \<comment> \<open>a macOS build machine on which every external command succeeds\<close>
  "osx_env =
     \<lparr>sys_platform = ''darwin'', environ = [''CI'' \<mapsto> ''true'', ''HOME'' \<mapsto> ''/Users/ci''],
      script_dir = ''/repo'', pw_dir = ''/var/root'', exit_status = (\<lambda>d args. 0)\<rparr>"

definition osx_globals :: globals where
  "osx_globals =
     \<lparr>SCRIPT_PATH = ''/repo'', IS_BUILD_MACHINE = True, PLATFORM = ''osx'',
      INSTALL_ROOT = ''/repo/builds/install''\<rparr>"

definition installed_world :: world where
  \<comment> \<open>the install tree of the specification's end-to-end scenario\<close>
  "installed_world =
     \<lparr>fs = Dir [(''repo'', Dir
            [(''build.py'', File (Bytes ''#!'')),
             (''builds'', Dir
                [(''install'', Dir
                    [(''osx-dynamic'', Dir
                        [(''lib'', Dir [(''libdiscord-rpc.dylib'', File (Bytes ''dylib''))]),
                         (''include'', Dir [(''discord_rpc.h'', File (Bytes ''header''))])])])])])],
      cwd = ''/repo'', trace = []\<rparr>"

definition stale_world :: world where
  \<comment> \<open>an archive of an earlier run lies in \<open>builds\<close>, and nothing is installed\<close>
  "stale_world =
     \<lparr>fs = Dir [(''repo'', Dir
            [(''build.py'', File (Bytes ''#!'')),
             (''builds'', Dir [(''discord-rpc-linux.zip'', File (Bytes ''old archive''))])])],
      cwd = ''/repo'', trace = []\<rparr>"

definition locked_world :: world where
  \<comment> \<open>the second of three installed files cannot be opened\<close>
  "locked_world =
     \<lparr>fs = Dir [(''repo'', Dir
            [(''build.py'', File (Bytes ''#!'')),
             (''builds'', Dir
                [(''install'', Dir
                    [(''linux-static'', Dir
                        [(''discord_rpc.h'', File (Bytes ''header'')),
                         (''libdiscord-rpc.a'', Denied),
                         (''readme.txt'', File (Bytes ''text''))])])])])],
      cwd = ''/repo'', trace = []\<rparr>"

section \<open>Properties\<close>


subsection \<open>Strings\<close>

lemma startswith_Cons: "startswith s (c # p) = (\<exists>t. s = c # t \<and> startswith t p)"
  by (cases s) (auto simp: startswith_def)

lemma startswith_Nil: "startswith s []"
  by (simp add: startswith_def)

subsection \<open>Platform detection\<close>

text \<open>
  C8, as the code has it: an identifier that starts with \<open>win\<close> gives \<open>win\<close>, the
  identifier \<open>darwin\<close> itself gives \<open>osx\<close>, an identifier that starts with \<open>linux\<close> gives
  \<open>linux\<close>, and every other identifier raises the exception that names it. The three
  cases exclude each other, so the result is one tag at most.
\<close>

theorem get_platform_cases:
  "(startswith s ''win'' \<longrightarrow> get_platform s = Inr ''win'')
   \<and> (s = ''darwin'' \<longrightarrow> get_platform s = Inr ''osx'')
   \<and> (startswith s ''linux'' \<longrightarrow> get_platform s = Inr ''linux'')
   \<and> (\<not> startswith s ''win'' \<and> s \<noteq> ''darwin'' \<and> \<not> startswith s ''linux''
        \<longrightarrow> get_platform s = Inl (Exception (''Unsupported platform '' @ s)))"
  by (auto simp: get_platform_def startswith_Cons)

theorem get_platform_cases_witness:
  "startswith ''linux2'' ''linux'' \<and> get_platform ''linux2'' = Inr ''linux''
   \<and> get_platform ''darwin'' = Inr ''osx''
   \<and> \<not> startswith ''freebsd8'' ''win'' \<and> ''freebsd8'' \<noteq> ''darwin''
   \<and> \<not> startswith ''freebsd8'' ''linux''
   \<and> get_platform ''freebsd8'' = Inl (Exception ''Unsupported platform freebsd8'')"
  using get_platform_cases [of "''linux2''"] get_platform_cases [of "''darwin''"]
    get_platform_cases [of "''freebsd8''"]
  by (simp add: startswith_def)

text \<open>
  C8 as stated asks for a tag on every identifier that begins with \<open>darwin\<close>. The code
  compares with \<open>darwin\<close> for equality: a longer identifier with that prefix raises.
\<close>

theorem get_platform_prefix_counterexample:
  "startswith ''darwin9'' ''darwin''
   \<and> get_platform ''darwin9'' = Inl (Exception ''Unsupported platform darwin9'')"
  by (simp add: get_platform_def startswith_def)

subsection \<open>Sequencing and traces\<close>

lemma then_do_eq_None:
  "then_do p q w = (None, w2) \<longleftrightarrow> (\<exists>w1. p w = (None, w1) \<and> q w1 = (None, w2))"
  by (auto simp: then_do_def split: prod.splits option.splits)

lemma then_do_None: "p w = (None, w1) \<Longrightarrow> then_do p q w = q w1"
  by (simp add: then_do_def)

lemma then_do_Some: "p w = (Some x, w1) \<Longrightarrow> then_do p q w = (Some x, w1)"
  by (simp add: then_do_def)

lemma execs_append: "execs (a @ b) = execs a @ execs b"
  by (induction a rule: execs.induct) simp_all

lemma invocations_append: "invocations (a @ b) = invocations a @ invocations b"
  by (induction a rule: invocations.induct) simp_all

lemma os_chdir_snd:
  "trace (snd (os_chdir fl p w)) = trace w" "fs (snd (os_chdir fl p w)) = fs w"
  by (auto simp: os_chdir_def split: option.splits node.splits)

lemma keepsI: "(\<And>w. obs (snd (p w)) = obs w) \<Longrightarrow> keeps obs p"
  by (simp add: keeps_def)

lemma keepsD: "keeps obs p \<Longrightarrow> obs (snd (p w)) = obs w"
  by (simp add: keeps_def)

lemma keeps_ok: "keeps obs ok"
  by (simp add: keeps_def ok_def)

lemma keeps_raise: "keeps obs (raise_exn x)"
  by (simp add: keeps_def raise_exn_def)

lemma keeps_then_do: "keeps obs p \<Longrightarrow> keeps obs q \<Longrightarrow> keeps obs (then_do p q)"
  unfolding keeps_def then_do_def
  by (auto split: prod.splits option.splits) (metis snd_conv)+

lemma keeps_if: "keeps obs p \<Longrightarrow> keeps obs q \<Longrightarrow> keeps obs (if b then p else q)"
  by simp

lemma keeps_bind_val:
  "(\<And>w. obs (snd (p w)) = obs w) \<Longrightarrow> (\<And>v. keeps obs (q v)) \<Longrightarrow> keeps obs (bind_val p q)"
  unfolding keeps_def bind_val_def
  by (auto split: prod.splits sum.splits) (metis snd_conv)+

lemma keeps_for_each: "(\<And>x. keeps obs (body x)) \<Longrightarrow> keeps obs (for_each body xs)"
proof -
  assume b: "\<And>x. keeps obs (body x)"
  have "obs (snd (for_each body xs w)) = obs w" for w
  proof (induction xs arbitrary: w)
    case Nil
    show ?case by simp
  next
    case (Cons x xs)
    obtain r w1 where s: "body x w = (r, w1)" by (cases "body x w")
    have "obs w1 = obs w" using keepsD [OF b, of x w] s by simp
    then show ?case using Cons [of w1] s by (cases r) simp_all
  qed
  then show ?thesis by (rule keepsI)
qed

lemma keeps_cd:
  assumes "keeps obs body" and "\<And>p. keeps obs (os_chdir (os_flavour e) p)"
  shows "keeps obs (cd e new_dir body)"
proof (rule keepsI)
  fix w
  have c: "obs (snd (os_chdir (os_flavour e) p v)) = obs v" for p v
    using assms(2) by (rule keepsD)
  have b: "obs (snd (body v)) = obs v" for v
    using assms(1) by (rule keepsD)
  show "obs (snd (cd e new_dir body w)) = obs w"
  proof (cases "new_dir = []")
    case True
    then show ?thesis by (simp add: cd_def b)
  next
    case False
    obtain r1 w1 where s1: "os_chdir (os_flavour e) new_dir w = (r1, w1)"
      by (cases "os_chdir (os_flavour e) new_dir w")
    obtain r2 w2 where s2: "body w1 = (r2, w2)" by (cases "body w1")
    have o1: "obs w1 = obs w" using c [of new_dir w] s1 by simp
    have o2: "obs w2 = obs w1" using b [of w1] s2 by simp
    show ?thesis
      using False o1 o2 c [of "cwd w" w2]
      by (cases r1; cases r2) (simp_all add: cd_def Let_def s1 s2 os_getcwd_def)
  qed
qed

lemma os_chdir_empty: "os_chdir fl [] w = (Some (FileNotFoundError []), w)"
  by (simp add: os_chdir_def resolve_def)

lemma mkdir_p_frame:
  "mkdir_p e p w = (r, w') \<Longrightarrow> cwd w' = cwd w \<and> execs (trace w') = execs (trace w)"
  by (auto simp: mkdir_p_def then_do_def click_secho_def os_makedirs_def execs_append
      split: if_splits option.splits)

lemma check_call_run:
  "subprocess_check_call e args w =
     ((if exit_status e (cwd w) args = 0 then None
       else Some (CalledProcessError (exit_status e (cwd w) args) args)),
      w\<lparr>trace := trace w @ [Exec (cwd w) args]\<rparr>)"
  by (simp add: subprocess_check_call_def Let_def)

subsection \<open>Commands dispatched by the command-line framework\<close>

lemma dispatched_chdir: "keeps dispatched (os_chdir fl p)"
  by (rule keepsI) (simp add: os_chdir_snd dispatched_def)

lemma dispatched_echo: "keeps dispatched (click_echo m)" "keeps dispatched (click_secho m)"
  by (simp_all add: dispatched_def keeps_def click_echo_def click_secho_def invocations_append)

lemma dispatched_check_call: "keeps dispatched (subprocess_check_call e args)"
  by (simp add: dispatched_def keeps_def subprocess_check_call_def Let_def invocations_append)

lemma dispatched_makedirs: "keeps dispatched (os_makedirs fl p)"
  by (auto simp: dispatched_def keeps_def os_makedirs_def split: option.splits)

lemma dispatched_rmtree: "keeps dispatched (shutil_rmtree_ignore_errors fl p)"
  by (auto simp: dispatched_def keeps_def shutil_rmtree_ignore_errors_def split: option.splits node.splits)

lemma dispatched_mkdir_p: "keeps dispatched (mkdir_p e p)"
proof (rule keepsI)
  fix w
  have "keeps dispatched (then_do (click_secho (''Making '' @ p)) (os_makedirs (os_flavour e) p))"
    by (intro keeps_then_do dispatched_echo dispatched_makedirs)
  then show "dispatched (snd (mkdir_p e p w)) = dispatched w"
    by (simp add: mkdir_p_def keeps_def)
qed

lemma dispatched_build_lib: "keeps dispatched (build_lib e g build_name generator options)"
  unfolding build_lib_def Let_def
  by (intro keeps_then_do keeps_cd keeps_if dispatched_mkdir_p dispatched_echo dispatched_check_call dispatched_chdir keeps_ok)

lemma dispatched_libs: "keeps dispatched (libs e g clean)"
  unfolding libs_def libs_prepare_def libs_builds_def Let_def
  by (intro keeps_then_do keeps_if dispatched_mkdir_p dispatched_rmtree dispatched_build_lib keeps_ok)

lemma dispatched_zip_open: "dispatched (snd (zipfile_ZipFile fl p w)) = dispatched w"
  by (auto simp: dispatched_def zipfile_ZipFile_def split: option.splits node.splits)

lemma dispatched_zip_write: "keeps dispatched (zipfile_write fl h f a)"
  by (auto simp: dispatched_def keeps_def zipfile_write_def Let_def split: option.splits node.splits fdata.splits)

lemma dispatched_archive: "keeps dispatched (archive e g)"
  unfolding archive_def Let_def
  apply (intro keeps_then_do keeps_bind_val keeps_cd dispatched_echo dispatched_chdir)
    apply simp
   apply (rule dispatched_zip_open)
  apply (rule keepsI)
  apply (rule keepsD [of dispatched "for_each _ _"])
  apply (rule keeps_for_each)
  apply (simp only: split_paired_all prod.case)
  apply (intro keeps_for_each keeps_then_do dispatched_echo dispatched_zip_write)
  done

lemma dispatched_check_call_args: "keeps dispatched (check_call_args e args)"
  by (simp add: check_call_args_def keeps_raise dispatched_check_call split: option.splits)

lemma dispatched_sign_files: "keeps dispatched (sign_files e g exts base)"
  unfolding sign_files_def Let_def
  apply (intro keeps_then_do dispatched_echo)
  apply (rule keepsI)
  apply (rule keepsD [of dispatched "for_each _ _"])
  apply (rule keeps_for_each)
  apply (simp only: split_paired_all prod.case)
  apply (intro keeps_for_each keeps_if keeps_then_do dispatched_echo dispatched_check_call_args keeps_ok)
  done

lemma dispatched_sign: "keeps dispatched (sign e g)"
  unfolding sign_def
  by (intro keeps_bind_val keeps_if dispatched_sign_files dispatched_echo) simp

lemma ctx_invoke_dispatched:
  assumes "keeps dispatched callback"
  shows "dispatched (snd (ctx_invoke name kwargs callback w)) = dispatched w @ [(name, kwargs)]"
  using keepsD [OF assms, of "w\<lparr>trace := trace w @ [Invoke name kwargs]\<rparr>"]
  by (simp add: ctx_invoke_def dispatched_def invocations_append)


subsection \<open>The default run\<close>

text \<open>
  C2: a run of \<open>cli\<close> without a subcommand is the run of \<open>libs\<close> with the clean flag it
  was given, then of \<open>sign\<close> when the automated-build flag is set, then of \<open>archive\<close>,
  each noted in the trace as dispatched and each started in the world that the one before
  left; a command that raises ends the run there. So what the run dispatched is always an
  initial part of that sequence, starting with \<open>libs\<close>, and it is the whole sequence when
  no command raised. Without the flag, the run dispatches no \<open>sign\<close>.
\<close>

theorem cli_default_sequence:
  assumes run: "cli e g None clean w = (r, w')"
  shows "(r, w') =
           (case libs e g clean (w\<lparr>trace := trace w @ [Invoke ''libs'' [(''clean'', clean)]]\<rparr>) of
              (Some x, w1) \<Rightarrow> (Some x, w1)
            | (None, w1) \<Rightarrow>
                (case (if IS_BUILD_MACHINE g
                       then sign e g (w1\<lparr>trace := trace w1 @ [Invoke ''sign'' []]\<rparr>)
                       else (None, w1)) of
                   (Some x, w2) \<Rightarrow> (Some x, w2)
                 | (None, w2) \<Rightarrow> archive e g (w2\<lparr>trace := trace w2 @ [Invoke ''archive'' []]\<rparr>)))
       \<and> (\<exists>n. dispatched w' = dispatched w @ take (Suc n) (default_sequence clean (IS_BUILD_MACHINE g)))
       \<and> (r = None \<longrightarrow> dispatched w' = dispatched w @ default_sequence clean (IS_BUILD_MACHINE g))
       \<and> (\<not> IS_BUILD_MACHINE g \<longrightarrow> (''sign'', []) \<notin> set (drop (length (dispatched w)) (dispatched w')))"
proof -
  have steps: "(r, w') =
           (case libs e g clean (w\<lparr>trace := trace w @ [Invoke ''libs'' [(''clean'', clean)]]\<rparr>) of
              (Some x, w1) \<Rightarrow> (Some x, w1)
            | (None, w1) \<Rightarrow>
                (case (if IS_BUILD_MACHINE g
                       then sign e g (w1\<lparr>trace := trace w1 @ [Invoke ''sign'' []]\<rparr>)
                       else (None, w1)) of
                   (Some x, w2) \<Rightarrow> (Some x, w2)
                 | (None, w2) \<Rightarrow> archive e g (w2\<lparr>trace := trace w2 @ [Invoke ''archive'' []]\<rparr>)))"
    unfolding run [symmetric]
    by (simp add: cli_def ctx_invoke_def then_do_def ok_def split: prod.splits option.splits)
  let ?L = "ctx_invoke ''libs'' [(''clean'', clean)] (libs e g clean)"
  let ?S = "ctx_invoke ''sign'' [] (sign e g)"
  let ?A = "ctx_invoke ''archive'' [] (archive e g)"
  obtain r1 w1 where l: "?L w = (r1, w1)" by (cases "?L w")
  have d1: "dispatched w1 = dispatched w @ [(''libs'', [(''clean'', clean)])]"
    using ctx_invoke_dispatched [OF dispatched_libs, where name = "''libs''" and w = w] l
    by (metis snd_conv)
  have dS: "dispatched (snd (?S v)) = dispatched v @ [(''sign'', [])]" for v
    by (rule ctx_invoke_dispatched [OF dispatched_sign])
  have dA: "dispatched (snd (?A v)) = dispatched v @ [(''archive'', [])]" for v
    by (rule ctx_invoke_dispatched [OF dispatched_archive])
  have seq: "default_sequence clean b =
      (''libs'', [(''clean'', clean)]) # (if b then [(''sign'', [])] else []) @ [(''archive'', [])]" for b
    by (simp add: default_sequence_def)
  have main: "(\<exists>n. dispatched w' = dispatched w @ take (Suc n) (default_sequence clean (IS_BUILD_MACHINE g)))
       \<and> (r = None \<longrightarrow> dispatched w' = dispatched w @ default_sequence clean (IS_BUILD_MACHINE g))"
  proof (cases r1)
    case (Some x)
    then have "w' = w1" "r = Some x"
      using run l by (simp_all add: cli_def then_do_def)
    then show ?thesis
      using d1 by (auto simp: seq intro: exI [of _ 0])
  next
    case None
    show ?thesis
    proof (cases "IS_BUILD_MACHINE g")
      case False
      then have "(r, w') = ?A w1"
        using run l None by (simp add: cli_def then_do_def ok_def)
      then have "dispatched w' = dispatched w1 @ [(''archive'', [])]"
        using dA [of w1] by (metis snd_conv)
      then show ?thesis
        using d1 False by (auto simp: seq intro: exI [of _ 1])
    next
      case True
      obtain r2 w2 where s: "?S w1 = (r2, w2)" by (cases "?S w1")
      have d2: "dispatched w2 = dispatched w1 @ [(''sign'', [])]"
        using dS [of w1] s by simp
      show ?thesis
      proof (cases r2)
        case (Some x)
        then have "w' = w2" "r = Some x"
          using run l None True s by (simp_all add: cli_def then_do_def)
        then show ?thesis
          using d1 d2 True by (auto simp: seq intro: exI [of _ 1])
      next
        case None2: None
        then have "(r, w') = ?A w2"
          using run l None True s by (simp add: cli_def then_do_def)
        then have "dispatched w' = dispatched w2 @ [(''archive'', [])]"
          using dA [of w2] by (metis snd_conv)
        then show ?thesis
          using d1 d2 True by (auto simp: seq intro: exI [of _ 2])
      qed
    qed
  qed
  have "(''sign'', []) \<notin> set (drop (length (dispatched w)) (dispatched w'))"
    if ci: "\<not> IS_BUILD_MACHINE g"
  proof -
    from main obtain n where
      "dispatched w' = dispatched w @ take (Suc n) (default_sequence clean (IS_BUILD_MACHINE g))"
      by blast
    then have "set (drop (length (dispatched w)) (dispatched w'))
        \<subseteq> set (default_sequence clean (IS_BUILD_MACHINE g))"
      using set_take_subset by simp
    then show ?thesis
      using ci by (auto simp: default_sequence_def)
  qed
  with steps main show ?thesis by blast
qed

theorem cli_default_sequence_witness:
  "cli linux_env linux_globals None True repo_world
     = (fst (cli linux_env linux_globals None True repo_world),
        snd (cli linux_env linux_globals None True repo_world))
   \<and> fst (cli linux_env linux_globals None True repo_world) = None
   \<and> \<not> IS_BUILD_MACHINE linux_globals
   \<and> dispatched (snd (cli linux_env linux_globals None True repo_world))
       = [(''libs'', [(''clean'', True)]), (''archive'', [])]
   \<and> snd (cli linux_env linux_globals None True repo_world)
       = snd (archive linux_env linux_globals
           ((snd (libs linux_env linux_globals True
                (repo_world\<lparr>trace := [Invoke ''libs'' [(''clean'', True)]]\<rparr>)))
            \<lparr>trace := trace (snd (libs linux_env linux_globals True
                (repo_world\<lparr>trace := [Invoke ''libs'' [(''clean'', True)]]\<rparr>))) @ [Invoke ''archive'' []]\<rparr>))
   \<and> execs (trace (snd (cli linux_env linux_globals None True repo_world))) =
       [(''/repo/builds/linux-static'',
           [''cmake'', ''/repo'', ''-DCMAKE_INSTALL_PREFIX=../install/linux-static'']),
        (''/repo/builds/linux-static'', debug_cmake),
        (''/repo/builds/linux-static'', release_cmake),
        (''/repo/builds/linux-dynamic'',
           [''cmake'', ''/repo'', ''-DCMAKE_INSTALL_PREFIX=../install/linux-dynamic'',
            ''-DBUILD_SHARED_LIBS=ON'']),
        (''/repo/builds/linux-dynamic'', debug_cmake),
        (''/repo/builds/linux-dynamic'', release_cmake)]
   \<and> fs_lookup (fs (snd (cli linux_env linux_globals None True repo_world)))
         [''repo'', ''builds'', ''discord-rpc-linux.zip'']
       = Some (File (Entries []))"
proof -
  let ?run = "cli linux_env linux_globals None True repo_world"
  let ?l = "libs linux_env linux_globals True
      (repo_world\<lparr>trace := trace repo_world @ [Invoke ''libs'' [(''clean'', True)]]\<rparr>)"
  have run: "?run = (fst ?run, snd ?run)"
    by simp
  have r: "fst ?run = None"
    by code_simp
  have ci: "\<not> IS_BUILD_MACHINE linux_globals"
    by code_simp
  have v: "dispatched repo_world @ default_sequence True (IS_BUILD_MACHINE linux_globals)
      = [(''libs'', [(''clean'', True)]), (''archive'', [])]"
    by code_simp
  note t = cli_default_sequence [OF run]
  from t r
  have d: "dispatched (snd ?run)
      = dispatched repo_world @ default_sequence True (IS_BUILD_MACHINE linux_globals)"
    by blast
  have d': "dispatched (snd ?run) = [(''libs'', [(''clean'', True)]), (''archive'', [])]"
    unfolding d by (rule v)
  have l: "fst ?l = None"
    by code_simp
  have tr: "trace repo_world = []"
    by (simp add: repo_world_def)
  from t have "(fst ?run, snd ?run) =
      (case ?l of
         (Some x, w1) \<Rightarrow> (Some x, w1)
       | (None, w1) \<Rightarrow>
           (case (if IS_BUILD_MACHINE linux_globals
                  then sign linux_env linux_globals (w1\<lparr>trace := trace w1 @ [Invoke ''sign'' []]\<rparr>)
                  else (None, w1)) of
              (Some x, w2) \<Rightarrow> (Some x, w2)
            | (None, w2) \<Rightarrow>
                archive linux_env linux_globals (w2\<lparr>trace := trace w2 @ [Invoke ''archive'' []]\<rparr>)))"
    by blast
  then have "(fst ?run, snd ?run) =
      archive linux_env linux_globals ((snd ?l)\<lparr>trace := trace (snd ?l) @ [Invoke ''archive'' []]\<rparr>)"
    using l ci by (cases ?l) simp
  then have st: "snd ?run =
      snd (archive linux_env linux_globals ((snd ?l)\<lparr>trace := trace (snd ?l) @ [Invoke ''archive'' []]\<rparr>))"
    by (metis snd_conv)
  have ex: "execs (trace (snd ?run)) =
       [(''/repo/builds/linux-static'',
           [''cmake'', ''/repo'', ''-DCMAKE_INSTALL_PREFIX=../install/linux-static'']),
        (''/repo/builds/linux-static'', debug_cmake),
        (''/repo/builds/linux-static'', release_cmake),
        (''/repo/builds/linux-dynamic'',
           [''cmake'', ''/repo'', ''-DCMAKE_INSTALL_PREFIX=../install/linux-dynamic'',
            ''-DBUILD_SHARED_LIBS=ON'']),
        (''/repo/builds/linux-dynamic'', debug_cmake),
        (''/repo/builds/linux-dynamic'', release_cmake)]"
    by code_simp
  have zip: "fs_lookup (fs (snd ?run)) [''repo'', ''builds'', ''discord-rpc-linux.zip'']
       = Some (File (Entries []))"
    by code_simp
  show ?thesis
    using run r ci d' st [unfolded tr append_Nil] ex zip by blast
qed

subsection \<open>The builds of a platform\<close>

lemma for_each_then_do:
  "for_each body (x # xs) = then_do (body x) (for_each body xs)"
  by (rule ext) (simp add: then_do_def split: prod.splits option.splits)

lemma for_each_Nil: "for_each body [] = ok"
  by (rule ext) (simp add: ok_def)

lemma then_do_ok: "then_do p ok = p"
  by (rule ext) (simp add: then_do_def ok_def split: prod.splits option.splits)

lemma libs_builds_table:
  "libs_builds e g =
     for_each (\<lambda>(build_name, generator, options). build_lib e g build_name generator options)
       (config_table (PLATFORM g) (IS_BUILD_MACHINE g))"
proof -
  consider (win) "PLATFORM g = ''win''" | (osx) "PLATFORM g = ''osx''"
    | (linux) "PLATFORM g = ''linux''"
    | (other) "PLATFORM g \<noteq> ''win''" "PLATFORM g \<noteq> ''osx''" "PLATFORM g \<noteq> ''linux''"
    by blast
  then show ?thesis
  proof cases
    case win
    then show ?thesis
      by (simp add: libs_builds_def config_table_def for_each_then_do for_each_Nil then_do_ok Let_def)
  next
    case osx
    then show ?thesis
      by (simp add: libs_builds_def config_table_def for_each_then_do for_each_Nil then_do_ok)
  next
    case linux
    then show ?thesis
      by (simp add: libs_builds_def config_table_def for_each_then_do for_each_Nil then_do_ok)
  next
    case other
    then show ?thesis
      by (simp add: libs_builds_def config_table_def for_each_Nil)
  qed
qed

text \<open>
  C3: after its preparation, \<open>libs\<close> runs \<open>build_lib\<close> once for each entry of the
  configuration table of the platform, in the order of the table (a build that raises
  ends the run, as it ends the loop). On \<open>linux\<close> the table is the static build and the
  dynamic build with \<open>BUILD_SHARED_LIBS\<close> set, neither with a generator; \<open>osx\<close> has two
  entries and \<open>win\<close> four.
\<close>

theorem libs_runs_config_table:
  "libs e g clean =
     then_do (libs_prepare e clean)
       (for_each (\<lambda>(build_name, generator, options). build_lib e g build_name generator options)
          (config_table (PLATFORM g) (IS_BUILD_MACHINE g)))
   \<and> config_table ''linux'' b =
       [(''linux-static'', None, []), (''linux-dynamic'', None, [(''BUILD_SHARED_LIBS'', True)])]
   \<and> length (config_table ''osx'' b) = 2
   \<and> length (config_table ''win'' b) = 4"
  by (simp add: libs_def libs_builds_table config_table_def)

theorem libs_runs_config_table_witness:
  "then_do (libs_prepare linux_env False)
       (for_each (\<lambda>(build_name, generator, options).
            build_lib linux_env linux_globals build_name generator options)
          (config_table (PLATFORM linux_globals) (IS_BUILD_MACHINE linux_globals))) repo_world
     = libs linux_env linux_globals False repo_world
   \<and> execs (trace (snd (libs linux_env linux_globals False repo_world))) =
       [(''/repo/builds/linux-static'',
           [''cmake'', ''/repo'', ''-DCMAKE_INSTALL_PREFIX=../install/linux-static'']),
        (''/repo/builds/linux-static'', debug_cmake),
        (''/repo/builds/linux-static'', release_cmake),
        (''/repo/builds/linux-dynamic'',
           [''cmake'', ''/repo'', ''-DCMAKE_INSTALL_PREFIX=../install/linux-dynamic'',
            ''-DBUILD_SHARED_LIBS=ON'']),
        (''/repo/builds/linux-dynamic'', debug_cmake),
        (''/repo/builds/linux-dynamic'', release_cmake)]"
proof -
  have t: "libs linux_env linux_globals False =
     then_do (libs_prepare linux_env False)
       (for_each (\<lambda>(build_name, generator, options).
            build_lib linux_env linux_globals build_name generator options)
          (config_table (PLATFORM linux_globals) (IS_BUILD_MACHINE linux_globals)))"
    using libs_runs_config_table [of linux_env linux_globals False] by blast
  have v: "execs (trace (snd (libs linux_env linux_globals False repo_world))) =
       [(''/repo/builds/linux-static'',
           [''cmake'', ''/repo'', ''-DCMAKE_INSTALL_PREFIX=../install/linux-static'']),
        (''/repo/builds/linux-static'', debug_cmake),
        (''/repo/builds/linux-static'', release_cmake),
        (''/repo/builds/linux-dynamic'',
           [''cmake'', ''/repo'', ''-DCMAKE_INSTALL_PREFIX=../install/linux-dynamic'',
            ''-DBUILD_SHARED_LIBS=ON'']),
        (''/repo/builds/linux-dynamic'', debug_cmake),
        (''/repo/builds/linux-dynamic'', release_cmake)]"
    by code_simp
  from t have "then_do (libs_prepare linux_env False)
       (for_each (\<lambda>(build_name, generator, options).
            build_lib linux_env linux_globals build_name generator options)
          (config_table (PLATFORM linux_globals) (IS_BUILD_MACHINE linux_globals))) repo_world
     = libs linux_env linux_globals False repo_world"
    by simp
  with v show ?thesis
    by blast
qed

subsection \<open>Signing on a platform without a signing tool\<close>

text \<open>
  C6: on a platform that is neither \<open>win\<close> nor \<open>osx\<close> (of the three tags, \<open>linux\<close>),
  \<open>sign\<close> prints that it does not sign there and returns without an exception; it runs no
  external command, and leaves the file system and the working directory as they were.
\<close>

theorem sign_unsupported:
  assumes "PLATFORM g \<noteq> ''win''" and "PLATFORM g \<noteq> ''osx''"
  shows "sign e g w =
           (None, w\<lparr>trace := trace w @ [Echo ''Not signing things on this platform yet'']\<rparr>)
         \<and> execs (trace (snd (sign e g w))) = execs (trace w)"
proof -
  have tool: "get_signtool e g = Inr None"
    using assms by (simp add: get_signtool_def)
  have run: "sign e g w =
      (None, w\<lparr>trace := trace w @ [Echo ''Not signing things on this platform yet'']\<rparr>)"
    using assms by (simp add: sign_def bind_val_def tool click_secho_def)
  then show ?thesis
    by (simp add: execs_append)
qed

theorem sign_unsupported_witness:
  "PLATFORM linux_globals \<noteq> ''win'' \<and> PLATFORM linux_globals \<noteq> ''osx''
   \<and> sign linux_env linux_globals repo_world =
       (None, \<lparr>fs = Dir [(''repo'', Dir [(''build.py'', File (Bytes ''#!''))])],
               cwd = ''/repo'',
               trace = [Echo ''Not signing things on this platform yet'']\<rparr>)
   \<and> execs (trace (snd (sign linux_env linux_globals repo_world))) = []"
proof -
  have p: "PLATFORM linux_globals \<noteq> ''win''" "PLATFORM linux_globals \<noteq> ''osx''"
    by code_simp+
  have v: "repo_world\<lparr>trace := trace repo_world @ [Echo ''Not signing things on this platform yet'']\<rparr>
      = \<lparr>fs = Dir [(''repo'', Dir [(''build.py'', File (Bytes ''#!''))])],
         cwd = ''/repo'',
         trace = [Echo ''Not signing things on this platform yet'']\<rparr>"
    by code_simp
  have x: "execs (trace repo_world) = []"
    by code_simp
  from sign_unsupported [OF p, of linux_env repo_world] v x p show ?thesis
    by simp
qed

subsection \<open>The steps of a build\<close>

lemma build_lib_reached:
  assumes pre: "then_do (mkdir_p e (os_path_join (os_flavour e) (SCRIPT_PATH g) [''builds'', build_name]))
           (then_do (mkdir_p e (os_path_join (os_flavour e) (INSTALL_ROOT g) [build_name]))
              (os_chdir (os_flavour e) (os_path_join (os_flavour e) (SCRIPT_PATH g) [''builds'', build_name]))) w
         = (None, w1)"
  shows "build_lib e g build_name generator options w =
     (case then_do (click_echo (''--- Building '' @ build_name))
          (then_do (subprocess_check_call e (initial_cmake e g build_name generator options))
          (then_do
             (if \<not> IS_BUILD_MACHINE g
              then subprocess_check_call e [''cmake'', ''--build'', ''.'', ''--config'', ''Debug'']
              else ok)
             (subprocess_check_call e
                [''cmake'', ''--build'', ''.'', ''--config'', ''Release'', ''--target'', ''install'']))) w1 of
        (Some x, w2) \<Rightarrow> (Some x, w2)
      | (None, w2) \<Rightarrow> os_chdir (os_flavour e) (cwd w) w2)"
    and "execs (trace w1) = execs (trace w)"
proof -
  let ?bp = "os_path_join (os_flavour e) (SCRIPT_PATH g) [''builds'', build_name]"
  let ?ip = "os_path_join (os_flavour e) (INSTALL_ROOT g) [build_name]"
  from pre obtain wa wb where a: "mkdir_p e ?bp w = (None, wa)"
    and b: "mkdir_p e ?ip wa = (None, wb)" and c: "os_chdir (os_flavour e) ?bp wb = (None, w1)"
    by (auto simp: then_do_eq_None)
  have ne: "?bp \<noteq> []"
    using c os_chdir_empty [of "os_flavour e" wb] by auto
  have cw: "cwd wb = cwd w"
    using mkdir_p_frame [OF a] mkdir_p_frame [OF b] by simp
  show "execs (trace w1) = execs (trace w)"
    using mkdir_p_frame [OF a] mkdir_p_frame [OF b] os_chdir_snd(1) [of "os_flavour e" _ wb] c
    by (metis snd_conv)
  show "build_lib e g build_name generator options w =
     (case then_do (click_echo (''--- Building '' @ build_name))
          (then_do (subprocess_check_call e (initial_cmake e g build_name generator options))
          (then_do
             (if \<not> IS_BUILD_MACHINE g
              then subprocess_check_call e [''cmake'', ''--build'', ''.'', ''--config'', ''Debug'']
              else ok)
             (subprocess_check_call e
                [''cmake'', ''--build'', ''.'', ''--config'', ''Release'', ''--target'', ''install'']))) w1 of
        (Some x, w2) \<Rightarrow> (Some x, w2)
      | (None, w2) \<Rightarrow> os_chdir (os_flavour e) (cwd w) w2)"
    unfolding build_lib_def Let_def cw [symmetric]
    by (simp add: then_do_def a b cd_def ne c os_getcwd_def)
qed


text \<open>
  C7, as the code has it. When \<open>build_lib\<close> has made its directories and entered the build
  directory, and the configuration step comes back with status 0, then the commands it
  runs are: the configuration step; next the Debug build, if and only if the
  automated-build flag is not set; and last the Release build with the install target,
  in the automated-build environment always, otherwise provided that the Debug build came
  back with status 0.
\<close>

theorem build_lib_steps:
  assumes pre: "then_do (mkdir_p e (os_path_join (os_flavour e) (SCRIPT_PATH g) [''builds'', build_name]))
           (then_do (mkdir_p e (os_path_join (os_flavour e) (INSTALL_ROOT g) [build_name]))
              (os_chdir (os_flavour e) (os_path_join (os_flavour e) (SCRIPT_PATH g) [''builds'', build_name]))) w
         = (None, w1)"
    and cfg: "exit_status e (cwd w1) (initial_cmake e g build_name generator options) = 0"
  shows "execs (trace (snd (build_lib e g build_name generator options w))) =
           execs (trace w)
           @ [(cwd w1, initial_cmake e g build_name generator options)]
           @ (if IS_BUILD_MACHINE g then [] else [(cwd w1, debug_cmake)])
           @ (if IS_BUILD_MACHINE g \<or> exit_status e (cwd w1) debug_cmake = 0
              then [(cwd w1, release_cmake)] else [])"
proof -
  note run = build_lib_reached(1) [OF pre] build_lib_reached(2) [OF pre]
  show ?thesis
  proof (cases "IS_BUILD_MACHINE g")
    case True
    then show ?thesis
      using cfg
      by (simp add: run then_do_def click_echo_def check_call_run ok_def execs_append
          release_cmake_def debug_cmake_def os_chdir_snd)
  next
    case False
    then show ?thesis
      using cfg
      by (simp add: run then_do_def click_echo_def check_call_run ok_def execs_append
          release_cmake_def debug_cmake_def os_chdir_snd)
  qed
qed


theorem build_lib_steps_witness:
  "then_do (mkdir_p linux_env (os_path_join (os_flavour linux_env) (SCRIPT_PATH linux_globals)
              [''builds'', ''linux-static'']))
     (then_do (mkdir_p linux_env (os_path_join (os_flavour linux_env) (INSTALL_ROOT linux_globals)
                 [''linux-static'']))
        (os_chdir (os_flavour linux_env) (os_path_join (os_flavour linux_env)
           (SCRIPT_PATH linux_globals) [''builds'', ''linux-static'']))) repo_world
    = (None,
       \<lparr>fs = Dir [(''repo'', Dir [(''build.py'', File (Bytes ''#!'')),
                (''builds'', Dir [(''linux-static'', Dir []),
                                  (''install'', Dir [(''linux-static'', Dir [])])])])],
        cwd = ''/repo/builds/linux-static'',
        trace = [Echo ''Making /repo/builds/linux-static'',
                 Echo ''Making /repo/builds/install/linux-static'']\<rparr>)
   \<and> exit_status linux_env ''/repo/builds/linux-static''
        (initial_cmake linux_env linux_globals ''linux-static'' None []) = 0
   \<and> execs (trace (snd (build_lib linux_env linux_globals ''linux-static'' None [] repo_world))) =
       [(''/repo/builds/linux-static'',
           [''cmake'', ''/repo'', ''-DCMAKE_INSTALL_PREFIX=../install/linux-static'']),
        (''/repo/builds/linux-static'', debug_cmake),
        (''/repo/builds/linux-static'', release_cmake)]"
proof -
  let ?w1 = "\<lparr>fs = Dir [(''repo'', Dir [(''build.py'', File (Bytes ''#!'')),
                (''builds'', Dir [(''linux-static'', Dir []),
                                  (''install'', Dir [(''linux-static'', Dir [])])])])],
        cwd = ''/repo/builds/linux-static'',
        trace = [Echo ''Making /repo/builds/linux-static'',
                 Echo ''Making /repo/builds/install/linux-static'']\<rparr>"
  have pre: "then_do (mkdir_p linux_env (os_path_join (os_flavour linux_env) (SCRIPT_PATH linux_globals)
              [''builds'', ''linux-static'']))
     (then_do (mkdir_p linux_env (os_path_join (os_flavour linux_env) (INSTALL_ROOT linux_globals)
                 [''linux-static'']))
        (os_chdir (os_flavour linux_env) (os_path_join (os_flavour linux_env)
           (SCRIPT_PATH linux_globals) [''builds'', ''linux-static'']))) repo_world
    = (None, ?w1)"
    by code_simp
  have cfg: "exit_status linux_env (cwd ?w1)
      (initial_cmake linux_env linux_globals ''linux-static'' None []) = 0"
    by code_simp
  have v: "execs (trace repo_world)
       @ [(cwd ?w1, initial_cmake linux_env linux_globals ''linux-static'' None [])]
       @ (if IS_BUILD_MACHINE linux_globals then [] else [(cwd ?w1, debug_cmake)])
       @ (if IS_BUILD_MACHINE linux_globals \<or> exit_status linux_env (cwd ?w1) debug_cmake = 0
          then [(cwd ?w1, release_cmake)] else [])
     = [(''/repo/builds/linux-static'',
           [''cmake'', ''/repo'', ''-DCMAKE_INSTALL_PREFIX=../install/linux-static'']),
        (''/repo/builds/linux-static'', debug_cmake),
        (''/repo/builds/linux-static'', release_cmake)]"
    by code_simp
  have c: "cwd ?w1 = ''/repo/builds/linux-static''"
    by simp
  have "execs (trace (snd (build_lib linux_env linux_globals ''linux-static'' None [] repo_world))) =
       [(''/repo/builds/linux-static'',
           [''cmake'', ''/repo'', ''-DCMAKE_INSTALL_PREFIX=../install/linux-static'']),
        (''/repo/builds/linux-static'', debug_cmake),
        (''/repo/builds/linux-static'', release_cmake)]"
    unfolding build_lib_steps [OF pre cfg] by (rule v)
  with pre cfg c show ?thesis
    by simp
qed

text \<open>
  C7 as stated has the Release step follow every successful configuration step. Outside
  the automated-build environment the Debug build stands between the two, and when it
  fails the exception of \<open>check_call\<close> ends the function: here the configuration step
  succeeds and no Release step is run.
\<close>

theorem build_lib_release_counterexample:
  "exit_status (linux_env\<lparr>exit_status := debug_fails\<rparr>) ''/repo/builds/linux-static''
       (initial_cmake (linux_env\<lparr>exit_status := debug_fails\<rparr>) linux_globals ''linux-static'' None []) = 0
   \<and> execs (trace (snd (build_lib (linux_env\<lparr>exit_status := debug_fails\<rparr>) linux_globals
          ''linux-static'' None [] repo_world))) =
       [(''/repo/builds/linux-static'',
           [''cmake'', ''/repo'', ''-DCMAKE_INSTALL_PREFIX=../install/linux-static'']),
        (''/repo/builds/linux-static'', [''cmake'', ''--build'', ''.'', ''--config'', ''Debug''])]"
  by code_simp


subsection \<open>Splitting and joining\<close>

lemma split_on_nonempty: "split_on P xs \<noteq> []"
  by (induction xs) (auto split: list.splits)

lemma split_on_append:
  "P s \<Longrightarrow> split_on P (xs @ s # ys) = split_on P xs @ split_on P ys"
proof (induction xs)
  case Nil
  then show ?case by simp
next
  case (Cons x xs)
  then show ?case
    using split_on_nonempty [of P xs] by (cases "split_on P xs") auto
qed

lemma split_on_free: "list_all (\<lambda>c. \<not> P c) xs \<Longrightarrow> split_on P xs = [xs]"
  by (induction xs) auto

lemma split_on_free_sep:
  "list_all (\<lambda>c. \<not> P c) n \<Longrightarrow> P s \<Longrightarrow> split_on P (n @ s # ys) = n # split_on P ys"
  by (simp add: split_on_append split_on_free)

lemma split_on_str_join:
  "P s \<Longrightarrow> list_all (\<lambda>n. list_all (\<lambda>c. \<not> P c) n) ns \<Longrightarrow> ns \<noteq> []
    \<Longrightarrow> split_on P (str_join [s] ns) = ns"
proof (induction ns)
  case Nil
  then show ?case by simp
next
  case (Cons n ns)
  show ?case
  proof (cases ns)
    case Nil
    then show ?thesis using Cons.prems by (simp add: split_on_free)
  next
    case (Cons m ms)
    then show ?thesis
      using Cons.prems Cons.IH by (simp add: split_on_free_sep)
  qed
qed

lemma split_on_parts_free: "list_all (\<lambda>n. list_all (\<lambda>c. \<not> P c) n) (split_on P xs)"
  by (induction xs) (auto split: list.splits)

lemma plain_free: "plain fl n \<Longrightarrow> list_all (\<lambda>c. \<not> is_sep fl c) n"
  by (simp add: plain_def)

lemma is_sep_sep: "is_sep fl (sep fl)"
  by (cases fl) (simp_all add: is_sep_def sep_def)

lemma norm_step_plain: "plain fl n \<Longrightarrow> norm_step r acc n = acc @ [n]"
  by (simp add: norm_step_def plain_def)

lemma foldl_norm_step_plain:
  "list_all (plain fl) ns \<Longrightarrow> foldl (norm_step r) acc ns = acc @ ns"
  by (induction ns arbitrary: acc) (auto simp: norm_step_plain)

lemma norm_step_skip: "norm_step r acc [] = acc" "norm_step r acc ''.'' = acc"
  by (simp_all add: norm_step_def)

subsection \<open>Joining a plain name to a path\<close>

lemma join2_plain:
  "plain fl n \<Longrightarrow>
   join2 fl a n = (if a = [] \<or> is_sep fl (last a) then a @ n else a @ [sep fl] @ n)"
  by (cases n) (auto simp: join2_def plain_def)

lemma comps_of_snoc_sep: "is_sep fl s \<Longrightarrow> comps_of fl (a @ [s]) = comps_of fl a"
  by (simp add: comps_of_def split_on_append norm_step_skip)

lemma comps_of_sep_plain:
  "is_sep fl s \<Longrightarrow> plain fl n \<Longrightarrow> comps_of fl (a @ s # n) = comps_of fl a @ [n]"
  by (simp add: comps_of_def split_on_append split_on_free plain_free norm_step_plain)

lemma comps_of_join2:
  assumes "plain fl n"
  shows "comps_of fl (join2 fl a n) = comps_of fl a @ [n]"
proof (cases "a = []")
  case True
  then show ?thesis
    using assms
    by (simp add: join2_plain comps_of_def split_on_free plain_free norm_step_plain norm_step_skip)
next
  case False
  show ?thesis
  proof (cases "is_sep fl (last a)")
    case True
    from False have a: "a = butlast a @ [last a]" by simp
    have "comps_of fl (a @ n) = comps_of fl (butlast a @ last a # n)"
      using a by (metis append.assoc append_Cons append_Nil)
    also have "\<dots> = comps_of fl (butlast a) @ [n]"
      using True assms by (rule comps_of_sep_plain)
    also have "comps_of fl (butlast a) = comps_of fl a"
      using comps_of_snoc_sep [OF True, of "butlast a"] a by simp
    finally show ?thesis
      using True False assms by (simp add: join2_plain)
  next
    case F: False
    then show ?thesis
      using False assms is_sep_sep [of fl]
      by (simp add: join2_plain comps_of_sep_plain)
  qed
qed

lemma join2_abs: "is_abs fl a \<Longrightarrow> plain fl n \<Longrightarrow> is_abs fl (join2 fl a n)"
  by (cases a) (auto simp: join2_plain is_abs_def)

lemma resolve_abs: "is_abs fl p \<Longrightarrow> resolve fl d p = Some (comps_of fl p)"
  by (simp add: resolve_def is_abs_def comps_of_def)

lemma norm_step_keeps_plain:
  assumes "list_all (plain fl) acc" and "list_all (\<lambda>c. \<not> is_sep fl c) c"
  shows "list_all (plain fl) (norm_step True acc c)"
proof -
  have "last acc \<noteq> ''..''" if "acc \<noteq> []"
    using assms(1) that by (cases acc rule: rev_cases) (auto simp: plain_def)
  moreover have "list_all (plain fl) (butlast acc)"
    using assms(1) by (cases acc rule: rev_cases) auto
  ultimately show ?thesis
    using assms by (auto simp: norm_step_def plain_def)
qed

lemma foldl_norm_step_keeps_plain:
  "list_all (plain fl) acc \<Longrightarrow> list_all (\<lambda>n. list_all (\<lambda>c. \<not> is_sep fl c) n) cs
    \<Longrightarrow> list_all (plain fl) (foldl (norm_step True) acc cs)"
  by (induction cs arbitrary: acc) (auto simp: norm_step_keeps_plain)

lemma comps_of_plain_all: "list_all (plain fl) (comps_of fl p)"
  unfolding comps_of_def
  by (rule foldl_norm_step_keeps_plain) (simp_all add: split_on_parts_free)

subsection \<open>Changing the tree at a path\<close>

lemma fs_lookup_append:
  "fs_lookup t p = Some m \<Longrightarrow> fs_lookup t (p @ q) = fs_lookup m q"
  by (induction p arbitrary: t) (auto split: node.splits option.splits)

lemma fs_lookup_snoc_dir:
  "fs_lookup t p = Some (Dir ds) \<Longrightarrow> fs_lookup t (p @ [n]) = map_of ds n"
  by (simp add: fs_lookup_append split: option.splits)

lemma fs_remove_at:
  "fs_lookup t p = Some (Dir ds) \<Longrightarrow>
   fs_lookup (fs_remove (p @ [n]) t) p = Some (Dir (AList.delete n ds))"
proof (induction p arbitrary: t)
  case Nil
  then show ?case by simp
next
  case (Cons c cs)
  then show ?case
    by (auto simp: update_conv' split: node.splits option.splits)
qed

lemma fs_makedirs_at:
  "fs_lookup t p = Some (Dir ds) \<Longrightarrow> map_of ds n = None \<Longrightarrow>
   \<exists>t'. fs_makedirs (p @ [n]) t = Some t' \<and> fs_lookup t' p = Some (Dir (ds @ [(n, Dir [])]))"
proof (induction p arbitrary: t)
  case Nil
  then show ?case by simp
next
  case (Cons c cs)
  then obtain es m where t: "t = Dir es" and m: "map_of es c = Some m"
    and l: "fs_lookup m cs = Some (Dir ds)"
    by (auto split: node.splits option.splits)
  from Cons.IH [OF l Cons.prems(2)] obtain m' where
    "fs_makedirs (cs @ [n]) m = Some m'" "fs_lookup m' cs = Some (Dir (ds @ [(n, Dir [])]))"
    by blast
  then show ?case
    using t m by (simp add: update_conv')
qed

lemma resolve_plain:
  assumes "plain fl n"
  shows "resolve fl d n = Some (comps_of fl d @ [n])"
proof -
  have "\<not> is_sep fl (hd n)" "n \<noteq> []"
    using assms by (cases n; simp add: plain_def)+
  then show ?thesis
    using comps_of_sep_plain [OF is_sep_sep assms, of d]
    by (simp add: resolve_def comps_of_def)
qed

lemma plain_builds: "plain fl ''builds''"
  by (cases fl) (simp_all add: plain_def is_sep_def)

lemma fs_put_same:
  "p \<noteq> [] \<Longrightarrow> fs_lookup t (butlast p) = Some (Dir ds) \<Longrightarrow> fs_lookup (fs_put p x t) p = Some x"
proof (induction p arbitrary: t)
  case Nil
  then show ?case by simp
next
  case (Cons c cs)
  show ?case
  proof (cases "cs = []")
    case True
    then show ?thesis using Cons.prems by (simp add: update_conv')
  next
    case False
    then obtain es m where "t = Dir es" "map_of es c = Some m"
      "fs_lookup m (butlast cs) = Some (Dir ds)"
      using Cons.prems by (auto split: node.splits option.splits)
    then show ?thesis
      using False Cons.IH [of m] by (simp add: update_conv')
  qed
qed

lemma fs_put_put: "fs_put p x (fs_put p y t) = fs_put p x t"
proof (induction p arbitrary: t)
  case Nil
  then show ?case by simp
next
  case (Cons c cs)
  then show ?case
    by (cases t) (auto simp: update_conv' split: option.splits)
qed

lemma fs_put_other:
  "a \<noteq> b \<Longrightarrow> fs_lookup (fs_put (c @ a # p) x t) (c @ b # q) = fs_lookup t (c @ b # q)"
proof (induction c arbitrary: t)
  case Nil
  then show ?case
    by (cases t) (auto simp: update_conv' split: option.splits)
next
  case (Cons d c)
  then show ?case
    by (cases t) (auto simp: update_conv' split: option.splits)
qed

subsection \<open>Loops\<close>

lemma for_each_append:
  "for_each body (xs @ ys) w =
     (case for_each body xs w of (None, w') \<Rightarrow> for_each body ys w' | (Some x, w') \<Rightarrow> (Some x, w'))"
  by (induction xs arbitrary: w) (auto split: prod.splits option.splits)

lemma for_each_map: "for_each body (map f xs) w = for_each (\<lambda>x. body (f x)) xs w"
  by (induction xs arbitrary: w) (auto split: prod.splits option.splits)

lemma for_each_cong:
  "(\<And>x w. x \<in> set xs \<Longrightarrow> body x w = body' x w) \<Longrightarrow> for_each body xs w = for_each body' xs w"
  by (induction xs arbitrary: w) (auto split: prod.splits option.splits)

lemma for_each_walk:
  "for_each (\<lambda>(path, ds, fns). for_each (body path) fns) ts w =
   for_each (\<lambda>(path, fname). body path fname) (walk_pairs ts) w"
proof (induction ts arbitrary: w)
  case Nil
  then show ?case by (simp add: walk_pairs_def)
next
  case (Cons t ts)
  obtain path ds fns where t: "t = (path, ds, fns)" by (cases t)
  have "walk_pairs (t # ts) = map (Pair path) fns @ walk_pairs ts"
    by (simp add: walk_pairs_def t)
  then show ?case
    using Cons.IH by (simp add: t for_each_append for_each_map split: prod.splits option.splits)
qed

subsection \<open>The walk and the files below a directory\<close>

lemma files_of_nonempty:
  "(p, x) \<in> set (files_of T) \<Longrightarrow> p \<noteq> []"
  "(p, x) \<in> set (sub_files es) \<Longrightarrow> p \<noteq> []"
  by (induction T and es rule: files_of_sub_files.induct) auto

lemma filenames_files: "map (Pair t) (filenames es) =
    map (\<lambda>(p, x). (foldl (join2 fl) t (butlast p), last p))
      (map (\<lambda>(n, m). ([n], m)) (filter (\<lambda>(n, m). \<not> is_dir m) es))"
  by (induction es) (auto simp: filenames_def)

lemma walk_files:
  "walk_pairs (walk fl t T) =
     map (\<lambda>(p, x). (foldl (join2 fl) t (butlast p), last p)) (files_of T)"
  "walk_pairs (walk_subdirs fl t es) =
     map (\<lambda>(p, x). (foldl (join2 fl) t (butlast p), last p)) (sub_files es)"
proof (induction fl t T and fl t es rule: walk_walk_subdirs.induct)
  case (1 fl t es)
  have "walk_pairs (walk fl t (Dir es)) = map (Pair t) (filenames es) @ walk_pairs (walk_subdirs fl t es)"
    by (simp add: walk_pairs_def)
  then show ?case
    using 1 by (simp add: filenames_files [of t es fl])
next
  case (2 fl t d)
  then show ?case by (simp add: walk_pairs_def)
next
  case (3 fl t)
  then show ?case by (simp add: walk_pairs_def)
next
  case (4 fl t)
  then show ?case by (simp add: walk_pairs_def)
next
  case (5 fl t n m es)
  let ?f = "\<lambda>t. (\<lambda>(p, x). (foldl (join2 fl) t (butlast p), last (p::string list)))
      :: string list \<times> node \<Rightarrow> string \<times> string"
  have sub: "map (?f t) (map (\<lambda>(p, x). (n # p, x)) (files_of m)) = map (?f (join2 fl t n)) (files_of m)"
    using files_of_nonempty(1) [of _ _ m] by (auto simp: butlast.simps)
  have "walk_pairs (walk_subdirs fl t ((n, m) # es)) =
      walk_pairs (walk fl (join2 fl t n) m) @ walk_pairs (walk_subdirs fl t es)"
    by (simp add: walk_pairs_def)
  also have "\<dots> = map (?f (join2 fl t n)) (files_of m) @ map (?f t) (sub_files es)"
    by (simp only: 5)
  also have "\<dots> = map (?f t) (map (\<lambda>(p, x). (n # p, x)) (files_of m)) @ map (?f t) (sub_files es)"
    by (simp only: sub)
  also have "\<dots> = map (?f t) (sub_files ((n, m) # es))"
    by simp
  finally show ?case .
qed

lemma wf_entries_distinct: "wf_entries fl es \<Longrightarrow> distinct (map fst es)"
  by (induction es) force+

lemma wf_entries_member:
  "wf_entries fl es \<Longrightarrow> (n, m) \<in> set es \<Longrightarrow> plain fl n \<and> CHR 0x00 \<notin> set n \<and> wf_node fl m"
  by (induction es) auto

lemma wf_entries_map_of:
  "wf_entries fl es \<Longrightarrow> (map_of es n = Some m) = ((n, m) \<in> set es)"
  using wf_entries_distinct [of fl es] by (auto simp: map_of_eq_Some_iff)

lemma set_sub_files:
  "set (sub_files es) = {(n # p, x) | n m p x. (n, m) \<in> set es \<and> (p, x) \<in> set (files_of m)}"
  by (induction es) (auto, blast+)

lemma set_files_of_Dir:
  "set (files_of (Dir es)) =
     {([n], m) | n m. (n, m) \<in> set es \<and> \<not> is_dir m} \<union> set (sub_files es)"
  by auto

lemma files_of_lookup:
  "wf_node fl T \<Longrightarrow>
   ((p, x) \<in> set (files_of T)) = (p \<noteq> [] \<and> fs_lookup T p = Some x \<and> \<not> is_dir x)"
proof (induction p arbitrary: T)
  case Nil
  then show ?case using files_of_nonempty(1) [of "[]" x T] by auto
next
  case (Cons c q)
  show ?case
  proof (cases T)
    case (Dir es)
    then have wf: "wf_entries fl es" using Cons.prems by simp
    have sub: "((c # q, x) \<in> set (sub_files es)) =
        (\<exists>m. map_of es c = Some m \<and> q \<noteq> [] \<and> fs_lookup m q = Some x \<and> \<not> is_dir x)"
    proof -
      have "((c # q, x) \<in> set (sub_files es)) =
          (\<exists>m. (c, m) \<in> set es \<and> (q, x) \<in> set (files_of m))"
        by (auto simp: set_sub_files)
      also have "\<dots> = (\<exists>m. (c, m) \<in> set es \<and> q \<noteq> [] \<and> fs_lookup m q = Some x \<and> \<not> is_dir x)"
        using Cons.IH wf_entries_member [OF wf] by blast
      finally show ?thesis
        by (simp add: wf_entries_map_of [OF wf])
    qed
    have own: "((c # q, x) \<in> {([n], m) | n m. (n, m) \<in> set es \<and> \<not> is_dir m}) =
        (q = [] \<and> map_of es c = Some x \<and> \<not> is_dir x)"
      by (auto simp: wf_entries_map_of [OF wf])
    show ?thesis
      unfolding Dir set_files_of_Dir Un_iff own sub
      by (cases "q = []") (auto split: option.splits)
  next
    case (File d)
    then show ?thesis by simp
  next
    case Denied
    then show ?thesis by simp
  qed
qed

lemma files_of_names:
  "wf_node fl T \<Longrightarrow> (p, x) \<in> set (files_of T) \<Longrightarrow>
     list_all (plain fl) p \<and> list_all (\<lambda>n. CHR 0x00 \<notin> set n) p"
  "wf_entries fl es \<Longrightarrow> (p, x) \<in> set (sub_files es) \<Longrightarrow>
     list_all (plain fl) p \<and> list_all (\<lambda>n. CHR 0x00 \<notin> set n) p"
proof (induction T and es arbitrary: p x and p x rule: files_of_sub_files.induct)
  case (1 es)
  then show ?case
    using wf_entries_member [of fl es] by (auto simp del: files_of.simps simp: set_files_of_Dir)
next
  case (5 n m es)
  then show ?case by auto
qed simp_all

lemma files_of_distinct:
  "wf_node fl T \<Longrightarrow> distinct (map fst (files_of T))"
  "wf_entries fl es \<Longrightarrow> distinct (map fst (sub_files es))"
proof (induction T and es rule: files_of_sub_files.induct)
  case (1 es)
  let ?own = "map (\<lambda>(n, m). ([n], m)) (filter (\<lambda>(n, m). \<not> is_dir m) es)"
  have d: "distinct (map fst es)" using 1 by (simp add: wf_entries_distinct)
  have "map fst ?own = map (\<lambda>n. [n]) (map fst (filter (\<lambda>(n, m). \<not> is_dir m) es))"
    by (induction es) auto
  moreover have "distinct (map fst (filter (\<lambda>(n, m). \<not> is_dir m) es))"
    using d by (rule distinct_map_filter)
  ultimately have own: "distinct (map fst ?own)"
    by (simp only: distinct_map) (simp add: inj_on_def)
  have disj: "set (map fst ?own) \<inter> set (map fst (sub_files es)) = {}"
  proof -
    have "length p = 1" if "p \<in> set (map fst ?own)" for p
      using that by auto
    moreover have "length p \<noteq> 1" if "p \<in> set (map fst (sub_files es))" for p
      using that files_of_nonempty(1) by (auto simp: set_sub_files)
    ultimately show ?thesis by blast
  qed
  show ?case
    using 1 own disj by simp
next
  case (5 n m es)
  have a: "distinct (map fst (map (\<lambda>(p, x). (n # p, x)) (files_of m)))"
  proof -
    have e: "map fst (map (\<lambda>(p, x). (n # p, x)) (files_of m)) = map ((#) n) (map fst (files_of m))"
      by (induction "files_of m") auto
    have "distinct (map ((#) n) (map fst (files_of m)))"
    proof (rule distinct_map [THEN iffD2, OF conjI])
      show "distinct (map fst (files_of m))" using 5 by simp
      show "inj_on ((#) n) (set (map fst (files_of m)))" by (rule inj_onI) simp
    qed
    then show ?thesis by (simp only: e)
  qed
  have b: "set (map fst (map (\<lambda>(p, x). (n # p, x)) (files_of m))) \<inter> set (map fst (sub_files es)) = {}"
  proof -
    have "hd p = n" if "p \<in> set (map fst (map (\<lambda>(p, x). (n # p, x)) (files_of m)))" for p
      using that by auto
    moreover have "hd p \<in> fst ` set es" if "p \<in> set (map fst (sub_files es))" for p
      using that by (force simp: set_sub_files)
    moreover have "n \<notin> fst ` set es" using 5 by simp
    ultimately show ?thesis by blast
  qed
  show ?case using 5 a b by simp
qed simp_all


subsection \<open>Preparing the builds directory\<close>

text \<open>
  C9: \<open>libs\<close> starts with its preparation and runs the builds from the world that the
  preparation leaves. Let the working directory be an existing directory in which
  \<open>builds\<close> is absent or a directory. With \<open>clean\<close> set, the preparation succeeds and the
  working directory then lists its other entries as before and \<open>builds\<close> as an empty
  directory: what was below \<open>builds\<close> is gone. Without \<open>clean\<close>, an existing \<open>builds\<close>
  directory is left as it is: the preparation changes nothing at all.
\<close>

theorem libs_prepare_builds_dir:
  assumes cwd_dir: "fs_lookup (fs w) (comps_of (os_flavour e) (cwd w)) = Some (Dir ds)"
    and builds: "map_of ds ''builds'' = None \<or> (\<exists>bs. map_of ds ''builds'' = Some (Dir bs))"
  shows "libs e g clean w =
           (case libs_prepare e clean w of
              (None, w') \<Rightarrow> libs_builds e g w'
            | (Some x, w') \<Rightarrow> (Some x, w'))
       \<and> fst (libs_prepare e True w) = None
       \<and> fs_lookup (fs (snd (libs_prepare e True w))) (comps_of (os_flavour e) (cwd w))
           = Some (Dir (AList.delete ''builds'' ds @ [(''builds'', Dir [])]))
       \<and> ((\<exists>bs. map_of ds ''builds'' = Some (Dir bs)) \<longrightarrow> libs_prepare e False w = (None, w))"
proof -
  let ?fl = "os_flavour e"
  let ?dc = "comps_of ?fl (cwd w)"
  have res: "resolve ?fl (cwd w) ''builds'' = Some (?dc @ [''builds''])"
    by (rule resolve_plain [OF plain_builds])
  have look: "fs_lookup (fs w) (?dc @ [''builds'']) = map_of ds ''builds''"
    using cwd_dir by (rule fs_lookup_snoc_dir)
  \<comment> \<open>the tree after the optional removal\<close>
  define t1 where "t1 = (if map_of ds ''builds'' = None then fs w else fs_remove (?dc @ [''builds'']) (fs w))"
  have rm: "shutil_rmtree_ignore_errors ?fl ''builds'' w = (None, w\<lparr>fs := t1\<rparr>)"
    using builds by (auto simp: shutil_rmtree_ignore_errors_def res look t1_def)
  have t1: "fs_lookup t1 ?dc = Some (Dir (AList.delete ''builds'' ds))"
  proof (cases "map_of ds ''builds'' = None")
    case True
    then have "AList.delete ''builds'' ds = ds"
      by (simp add: map_of_eq_None_iff)
    then show ?thesis using True cwd_dir by (simp add: t1_def)
  next
    case False
    then show ?thesis using fs_remove_at [OF cwd_dir, of "''builds''"] by (auto simp: t1_def)
  qed
  have gone: "map_of (AList.delete ''builds'' ds) ''builds'' = None"
    by (simp add: delete_conv')
  from fs_makedirs_at [OF t1 gone] obtain t2 where
    mk: "fs_makedirs (?dc @ [''builds'']) t1 = Some t2"
    and t2: "fs_lookup t2 ?dc = Some (Dir (AList.delete ''builds'' ds @ [(''builds'', Dir [])]))"
    by blast
  have nodir: "\<not> os_path_isdir ?fl ''builds'' (w\<lparr>fs := t1\<rparr>)"
    using fs_lookup_snoc_dir [OF t1, of "''builds''"] gone
    by (simp add: os_path_isdir_def res)
  have clean: "libs_prepare e True w =
      (None, w\<lparr>fs := t2, trace := trace w @ [Echo ''Making builds'']\<rparr>)"
    using nodir
    by (simp add: libs_prepare_def then_do_def rm mkdir_p_def click_secho_def os_makedirs_def res mk)
  have keep: "libs_prepare e False w = (None, w)" if "map_of ds ''builds'' = Some (Dir bs)" for bs
  proof -
    have "os_path_isdir ?fl ''builds'' w"
      using that by (simp add: os_path_isdir_def res look)
    then show ?thesis
      by (simp add: libs_prepare_def then_do_def ok_def mkdir_p_def)
  qed
  have "libs e g clean w =
           (case libs_prepare e clean w of
              (None, w') \<Rightarrow> libs_builds e g w'
            | (Some x, w') \<Rightarrow> (Some x, w'))"
    by (simp add: libs_def then_do_def)
  then show ?thesis
    using clean t2 keep by auto
qed

theorem libs_prepare_builds_dir_witness:
  "fs_lookup (fs installed_world) (comps_of (os_flavour linux_env) (cwd installed_world))
     = Some (Dir [(''build.py'', File (Bytes ''#!'')),
                  (''builds'', Dir
                     [(''install'', Dir
                         [(''osx-dynamic'', Dir
                             [(''lib'', Dir [(''libdiscord-rpc.dylib'', File (Bytes ''dylib''))]),
                              (''include'', Dir [(''discord_rpc.h'', File (Bytes ''header''))])])])])])
   \<and> fst (libs_prepare linux_env True installed_world) = None
   \<and> fs_lookup (fs (snd (libs_prepare linux_env True installed_world))) [''repo'']
       = Some (Dir [(''build.py'', File (Bytes ''#!'')), (''builds'', Dir [])])
   \<and> libs_prepare linux_env False installed_world = (None, installed_world)"
proof -
  let ?ds = "[(''build.py'', File (Bytes ''#!'')),
              (''builds'', Dir
                 [(''install'', Dir
                     [(''osx-dynamic'', Dir
                         [(''lib'', Dir [(''libdiscord-rpc.dylib'', File (Bytes ''dylib''))]),
                          (''include'', Dir [(''discord_rpc.h'', File (Bytes ''header''))])])])])]"
  have h1: "fs_lookup (fs installed_world) (comps_of (os_flavour linux_env) (cwd installed_world))
      = Some (Dir ?ds)"
    by code_simp
  have m: "map_of ?ds ''builds'' = Some (Dir
                 [(''install'', Dir
                     [(''osx-dynamic'', Dir
                         [(''lib'', Dir [(''libdiscord-rpc.dylib'', File (Bytes ''dylib''))]),
                          (''include'', Dir [(''discord_rpc.h'', File (Bytes ''header''))])])])])"
    by simp
  then have h2: "map_of ?ds ''builds'' = None \<or> (\<exists>bs. map_of ?ds ''builds'' = Some (Dir bs))"
    by blast
  have c: "comps_of (os_flavour linux_env) (cwd installed_world) = [''repo'']"
    by code_simp
  have v: "AList.delete ''builds'' ?ds @ [(''builds'', Dir [])]
      = [(''build.py'', File (Bytes ''#!'')), (''builds'', Dir [])]"
    by code_simp
  from libs_prepare_builds_dir [OF h1 h2, of linux_globals True] m
  have "fst (libs_prepare linux_env True installed_world) = None"
    and "fs_lookup (fs (snd (libs_prepare linux_env True installed_world)))
           (comps_of (os_flavour linux_env) (cwd installed_world))
         = Some (Dir (AList.delete ''builds'' ?ds @ [(''builds'', Dir [])]))"
    and "libs_prepare linux_env False installed_world = (None, installed_world)"
    by blast+
  with h1 show ?thesis
    unfolding c v by blast
qed


subsection \<open>Paths of plain names\<close>

lemma foldl_join2_plain:
  "p \<noteq> [] \<Longrightarrow> list_all (plain fl) p \<Longrightarrow>
   foldl (join2 fl) a p =
     (if a = [] \<or> is_sep fl (last a) then a else a @ [sep fl]) @ str_join [sep fl] p"
proof (induction p arbitrary: a)
  case Nil
  then show ?case by simp
next
  case (Cons n ps)
  show ?case
  proof (cases ps)
    case Nil
    then show ?thesis using Cons.prems by (simp add: join2_plain)
  next
    case (Cons m ms)
    let ?a' = "join2 fl a n"
    have n: "plain fl n" using Cons.prems by simp
    then have nn: "n \<noteq> []" "\<not> is_sep fl (last n)"
      by (auto simp: plain_def list_all_iff)
    have a': "?a' \<noteq> []" "\<not> is_sep fl (last ?a')"
      using n nn by (auto simp: join2_plain)
    have "foldl (join2 fl) a (n # ps) = foldl (join2 fl) ?a' ps"
      by simp
    also have "\<dots> = ?a' @ [sep fl] @ str_join [sep fl] ps"
      using Cons.IH [of ?a'] Cons.prems Cons a' by simp
    finally show ?thesis
      using n Cons by (simp add: join2_plain)
  qed
qed

lemma plain_all_free:
  "list_all (plain fl) r \<Longrightarrow> list_all (\<lambda>n. list_all (\<lambda>c. \<not> is_sep fl c) n) r"
  by (induction r) (auto simp: plain_def)

lemma split_on_sep_join:
  "list_all (plain fl) ns \<Longrightarrow> ns \<noteq> [] \<Longrightarrow>
   split_on (is_sep fl) (str_join [sep fl] ns) = ns"
  by (rule split_on_str_join) (simp_all add: is_sep_sep plain_all_free)

lemma os_path_join_inj:
  assumes "list_all (plain fl) p" "list_all (plain fl) q" "p \<noteq> []" "q \<noteq> []"
    and eq: "os_path_join fl a p = os_path_join fl a q"
  shows "p = q"
proof -
  from eq have "str_join [sep fl] p = str_join [sep fl] q"
    using assms(1-4) by (simp add: os_path_join_def foldl_join2_plain)
  then have "split_on (is_sep fl) (str_join [sep fl] p) = split_on (is_sep fl) (str_join [sep fl] q)"
    by simp
  then show ?thesis
    using assms(1-4) by (simp add: split_on_sep_join)
qed

subsection \<open>The signing loop\<close>

lemma those_Some_append: "those xs = Some ys \<Longrightarrow> those (xs @ [Some z]) = Some (ys @ [z])"
  by (induction xs arbitrary: ys) (auto split: option.splits)

lemma sign_loop:
  fixes e g exts base
  defines "body \<equiv> (\<lambda>(p, x).
            (let ext = snd (os_path_splitext (os_flavour e) (last p))
             in if ext \<notin> exts then ok
                else
                  (let fpath = os_path_join (os_flavour e)
                         (foldl (join2 (os_flavour e)) (INSTALL_ROOT g) (butlast p)) [last p]
                   in then_do (click_echo (''Sign '' @ fpath))
                        (let sign_command = base @ [Some fpath]
                         in check_call_args e sign_command))))"
    and "lines \<equiv> (\<lambda>d argv xs. concat (map (\<lambda>f.
              [Echo (''Sign '' @ os_path_join (os_flavour e) (INSTALL_ROOT g) (fst f)),
               Exec d (argv @ [os_path_join (os_flavour e) (INSTALL_ROOT g) (fst f)])])
            (filter (\<lambda>f. snd (os_path_splitext (os_flavour e) (last (fst f))) \<in> exts) xs)))"
  assumes base: "those base = Some argv"
    and good: "\<And>f. f \<in> set xs \<Longrightarrow> snd (os_path_splitext (os_flavour e) (last (fst f))) \<in> exts \<Longrightarrow>
        exit_status e (cwd w) (argv @ [os_path_join (os_flavour e) (INSTALL_ROOT g) (fst f)]) = 0"
    and ne: "\<And>f. f \<in> set xs \<Longrightarrow> fst f \<noteq> []"
  shows "for_each body xs w = (None, w\<lparr>trace := trace w @ lines (cwd w) argv xs\<rparr>)"
  using good ne
proof (induction xs arbitrary: w)
  case Nil
  then show ?case by (simp add: lines_def)
next
  case (Cons f xs)
  obtain p x where f: "f = (p, x)" by (cases f)
  have p: "p \<noteq> []" using Cons.prems(2) [of f] f by simp
  then have path: "os_path_join (os_flavour e) (foldl (join2 (os_flavour e)) (INSTALL_ROOT g) (butlast p)) [last p]
      = os_path_join (os_flavour e) (INSTALL_ROOT g) p"
    unfolding os_path_join_def
    by (metis append_butlast_last_id foldl_Cons foldl_Nil foldl_append)
  show ?case
  proof (cases "snd (os_path_splitext (os_flavour e) (last p)) \<in> exts")
    case False
    have "for_each body xs w = (None, w\<lparr>trace := trace w @ lines (cwd w) argv xs\<rparr>)"
      by (rule Cons.IH) (use Cons.prems in auto)
    moreover have "body f w = (None, w)"
      using False by (simp add: body_def f ok_def)
    moreover have "lines (cwd w) argv (f # xs) = lines (cwd w) argv xs"
      using False by (simp add: lines_def f)
    ultimately show ?thesis
      by simp
  next
    case True
    let ?fp = "os_path_join (os_flavour e) (INSTALL_ROOT g) p"
    let ?w1 = "w\<lparr>trace := trace w @ [Echo (''Sign '' @ ?fp), Exec (cwd w) (argv @ [?fp])]\<rparr>"
    have st: "exit_status e (cwd w) (argv @ [?fp]) = 0"
      using Cons.prems(1) [of f] True f by simp
    have step: "body f w = (None, ?w1)"
      using st True
      by (simp add: body_def f path Let_def then_do_def click_echo_def check_call_args_def
          those_Some_append [OF base] check_call_run)
    have "for_each body xs ?w1 = (None, ?w1\<lparr>trace := trace ?w1 @ lines (cwd ?w1) argv xs\<rparr>)"
      by (rule Cons.IH) (use Cons.prems in auto)
    moreover have "lines (cwd w) argv (f # xs) =
        [Echo (''Sign '' @ ?fp), Exec (cwd w) (argv @ [?fp])] @ lines (cwd w) argv xs"
      using True by (simp add: lines_def f)
    ultimately show ?thesis
      using step by simp
  qed
qed

lemma os_walk_at:
  "resolve fl (cwd w) t = Some rc \<Longrightarrow> fs_lookup (fs w) rc = Some T \<Longrightarrow> os_walk fl t w = walk fl t T"
  by (simp add: os_walk_def)

lemma sign_files_run:
  assumes base: "those base = Some argv"
    and root: "resolve (os_flavour e) (cwd w) (INSTALL_ROOT g) = Some rc" "fs_lookup (fs w) rc = Some T"
    and good: "\<And>f. f \<in> set (files_of T) \<Longrightarrow>
        snd (os_path_splitext (os_flavour e) (last (fst f))) \<in> exts \<Longrightarrow>
        exit_status e (cwd w) (argv @ [os_path_join (os_flavour e) (INSTALL_ROOT g) (fst f)]) = 0"
  shows "sign_files e g exts base w =
     (None, w\<lparr>trace := trace w @ Echo ''--- Signing'' #
        concat (map (\<lambda>f.
              [Echo (''Sign '' @ os_path_join (os_flavour e) (INSTALL_ROOT g) (fst f)),
               Exec (cwd w) (argv @ [os_path_join (os_flavour e) (INSTALL_ROOT g) (fst f)])])
            (filter (\<lambda>f. snd (os_path_splitext (os_flavour e) (last (fst f))) \<in> exts)
               (files_of T)))\<rparr>)"
proof -
  let ?fl = "os_flavour e"
  let ?w0 = "w\<lparr>trace := trace w @ [Echo ''--- Signing'']\<rparr>"
  have walk: "os_walk ?fl (INSTALL_ROOT g) ?w0 = walk ?fl (INSTALL_ROOT g) T"
    using root by (simp add: os_walk_def)
  have ne: "fst f \<noteq> []" if "f \<in> set (files_of T)" for f
    using that files_of_nonempty(1) [of "fst f" "snd f" T] by simp
  let ?body = "\<lambda>(p, x).
            (let ext = snd (os_path_splitext ?fl (last p))
             in if ext \<notin> exts then ok
                else
                  (let fpath = os_path_join ?fl (foldl (join2 ?fl) (INSTALL_ROOT g) (butlast p)) [last p]
                   in then_do (click_echo (''Sign '' @ fpath))
                        (let sign_command = base @ [Some fpath]
                         in check_call_args e sign_command)))"
  have loop: "for_each ?body (files_of T) ?w0
      = (None, ?w0\<lparr>trace := trace ?w0 @ concat (map (\<lambda>f.
              [Echo (''Sign '' @ os_path_join ?fl (INSTALL_ROOT g) (fst f)),
               Exec (cwd ?w0) (argv @ [os_path_join ?fl (INSTALL_ROOT g) (fst f)])])
            (filter (\<lambda>f. snd (os_path_splitext ?fl (last (fst f))) \<in> exts) (files_of T)))\<rparr>)"
    by (rule sign_loop [OF base]) (use good ne in auto)
  let ?B = "\<lambda>path fname.
        (let ext = snd (os_path_splitext ?fl fname)
         in if ext \<notin> exts then ok
            else
              (let fpath = os_path_join ?fl path [fname]
               in then_do (click_echo (''Sign '' @ fpath))
                    (let sign_command = base @ [Some fpath]
                     in check_call_args e sign_command)))"
  have "sign_files e g exts base w =
      for_each (\<lambda>(path, ds, fns). for_each (?B path) fns) (os_walk ?fl (INSTALL_ROOT g) ?w0) ?w0"
    unfolding sign_files_def then_do_def click_echo_def by simp
  also have "\<dots> = for_each (\<lambda>(path, fname). ?B path fname)
      (walk_pairs (walk ?fl (INSTALL_ROOT g) T)) ?w0"
    by (simp only: walk for_each_walk)
  also have "\<dots> = for_each (\<lambda>f. (\<lambda>(path, fname). ?B path fname)
        ((\<lambda>(p, x). (foldl (join2 ?fl) (INSTALL_ROOT g) (butlast p), last p)) f)) (files_of T) ?w0"
    by (simp only: walk_files for_each_map)
  also have "\<dots> = for_each ?body (files_of T) ?w0"
    by (rule for_each_cong) (simp add: split_def)
  finally have eq: "sign_files e g exts base w = for_each ?body (files_of T) ?w0" .
  show ?thesis
    by (simp only: eq loop) simp
qed

lemma count_list_map_filter:
  "distinct (map h xs) \<Longrightarrow> y \<in> set xs \<Longrightarrow>
   count_list (map h (filter P xs)) (h y) = (if P y then 1 else 0)"
proof (induction xs)
  case Nil
  then show ?case by simp
next
  case (Cons x xs)
  have absent: "count_list (map h (filter P xs)) (h x) = 0"
    using Cons.prems(1) by (auto simp: count_list_0_iff)
  show ?case
  proof (cases "y = x")
    case True
    then show ?thesis using absent by simp
  next
    case False
    then have y: "y \<in> set xs" using Cons.prems by simp
    then have "h y \<noteq> h x" using Cons.prems(1) by (metis distinct.simps(2) image_eqI list.simps(9) set_map)
    then show ?thesis using Cons.IH y Cons.prems(1) by simp
  qed
qed

lemma execs_sign_lines:
  "execs (concat (map (\<lambda>f. [Echo (m f), Exec d (c f)]) xs)) = map (\<lambda>f. (d, c f)) xs"
  by (induction xs) simp_all

lemma sign_command_inj: "sign_command e g tool a = sign_command e g tool b \<Longrightarrow> a = b"
  by (simp add: sign_command_def split: if_splits)

text \<open>
  C5: on \<open>win\<close> and on \<open>osx\<close>, with the signing tool found, the install root a well-formed
  tree and every signing command successful, \<open>sign\<close> returns normally and the external
  commands it runs are the signing commands of the files below the install root whose
  extension is in the signable set of the platform, in the order of the walk. In this
  list the command of a file below the install root stands once when its extension is
  signable and not at all otherwise; the files below the root are the entries that a
  path from the root reaches and that are not directories.
\<close>

theorem sign_once_per_signable_file:
  assumes plat: "PLATFORM g = ''win'' \<or> PLATFORM g = ''osx''"
    and tool: "get_signtool e g = Inr (Some tool)"
    and root: "resolve (os_flavour e) (cwd w) (INSTALL_ROOT g) = Some rc"
      "fs_lookup (fs w) rc = Some T"
    and wf: "wf_node (os_flavour e) T"
    and good: "\<forall>f \<in> set (files_of T). signable e g f \<longrightarrow>
        exit_status e (cwd w)
          (sign_command e g tool (os_path_join (os_flavour e) (INSTALL_ROOT g) (fst f))) = 0"
  shows "fst (sign e g w) = None
    \<and> execs (trace (snd (sign e g w))) =
        execs (trace w) @
        map (\<lambda>f. (cwd w, sign_command e g tool (os_path_join (os_flavour e) (INSTALL_ROOT g) (fst f))))
          (filter (signable e g) (files_of T))
    \<and> (\<forall>f \<in> set (files_of T).
          count_list
            (map (\<lambda>f. (cwd w, sign_command e g tool (os_path_join (os_flavour e) (INSTALL_ROOT g) (fst f))))
               (filter (signable e g) (files_of T)))
            (cwd w, sign_command e g tool (os_path_join (os_flavour e) (INSTALL_ROOT g) (fst f)))
          = (if signable e g f then 1 else 0))
    \<and> (\<forall>p x. ((p, x) \<in> set (files_of T)) = (p \<noteq> [] \<and> fs_lookup T p = Some x \<and> \<not> is_dir x))"
proof -
  let ?fl = "os_flavour e"
  let ?path = "\<lambda>f. os_path_join ?fl (INSTALL_ROOT g) (fst f)"
  let ?h = "\<lambda>f. (cwd w, sign_command e g tool (?path f))"
  let ?exts = "signable_set (PLATFORM g)"
  define base where "base =
     (if PLATFORM g = ''win'' then
        [Some tool, Some ''sign'', Some ''/n'', Some ''Hammer & Chisel Inc.'', Some ''/a'',
         Some ''/tr'', Some ''http://timestamp.digicert.com/rfc3161'', Some ''/as'',
         Some ''/td'', Some ''sha256'', Some ''/fd'', Some ''sha256'']
      else
        [Some tool, Some ''--keychain'',
         Some (os_path_expanduser e ''~/Library/Keychains/login.keychain''),
         Some ''-vvvv'', Some ''--deep'', Some ''--force'',
         Some ''--sign'', Some ''Developer ID Application: Hammer & Chisel Inc. (53Q6R32WPB)''])"
  define argv where "argv = butlast (sign_command e g tool [])"
  have those: "those base = Some argv"
    by (simp add: base_def argv_def sign_command_def)
  have cmd: "argv @ [a] = sign_command e g tool a" for a
    by (simp add: argv_def sign_command_def)
  have run0: "sign e g w = sign_files e g ?exts base w"
    using plat by (auto simp: sign_def bind_val_def tool signable_set_def base_def)
  have sg: "(snd (os_path_splitext ?fl (last (fst f))) \<in> ?exts) = signable e g f" for f
    by (simp add: signable_def)
  have run: "sign e g w =
     (None, w\<lparr>trace := trace w @ Echo ''--- Signing'' #
        concat (map (\<lambda>f. [Echo (''Sign '' @ ?path f), Exec (cwd w) (sign_command e g tool (?path f))])
            (filter (signable e g) (files_of T)))\<rparr>)"
    unfolding run0
    using sign_files_run [OF those root, of ?exts] good
    by (simp add: cmd sg)
  have ex: "execs (trace (snd (sign e g w))) =
      execs (trace w) @ map ?h (filter (signable e g) (files_of T))"
    by (simp add: run execs_append execs_sign_lines)
  have dist: "distinct (map ?h (files_of T))"
  proof -
    have d: "distinct (map fst (files_of T))"
      using wf by (rule files_of_distinct)
    have inj: "inj_on (\<lambda>p. (cwd w, sign_command e g tool (os_path_join ?fl (INSTALL_ROOT g) p)))
        (set (map fst (files_of T)))"
    proof (rule inj_onI)
      fix p q
      assume p: "p \<in> set (map fst (files_of T))" and q: "q \<in> set (map fst (files_of T))"
        and eq: "(cwd w, sign_command e g tool (os_path_join ?fl (INSTALL_ROOT g) p))
          = (cwd w, sign_command e g tool (os_path_join ?fl (INSTALL_ROOT g) q))"
      from p obtain x where px: "(p, x) \<in> set (files_of T)" by auto
      from q obtain y where qy: "(q, y) \<in> set (files_of T)" by auto
      have "os_path_join ?fl (INSTALL_ROOT g) p = os_path_join ?fl (INSTALL_ROOT g) q"
        using eq sign_command_inj by blast
      then show "p = q"
        using files_of_names(1) [OF wf px] files_of_names(1) [OF wf qy]
          files_of_nonempty(1) [OF px] files_of_nonempty(1) [OF qy]
        by (auto intro: os_path_join_inj)
    qed
    have "distinct (map (\<lambda>p. (cwd w, sign_command e g tool (os_path_join ?fl (INSTALL_ROOT g) p)))
        (map fst (files_of T)))"
      by (rule distinct_map [THEN iffD2, OF conjI [OF d inj]])
    then show ?thesis
      by (simp add: comp_def)
  qed
  have cnt: "count_list (map ?h (filter (signable e g) (files_of T))) (?h f)
      = (if signable e g f then 1 else 0)" if "f \<in> set (files_of T)" for f
    using dist that by (rule count_list_map_filter)
  have set: "((p, x) \<in> set (files_of T)) = (p \<noteq> [] \<and> fs_lookup T p = Some x \<and> \<not> is_dir x)" for p x
    using wf by (rule files_of_lookup)
  show ?thesis
    using run ex cnt set by simp
qed

theorem sign_once_per_signable_file_witness:
  "PLATFORM osx_globals = ''osx''
   \<and> get_signtool osx_env osx_globals = Inr (Some ''/usr/bin/codesign'')
   \<and> resolve (os_flavour osx_env) (cwd installed_world) (INSTALL_ROOT osx_globals)
       = Some [''repo'', ''builds'', ''install'']
   \<and> fs_lookup (fs installed_world) [''repo'', ''builds'', ''install'']
       = Some (Dir [(''osx-dynamic'', Dir
                      [(''lib'', Dir [(''libdiscord-rpc.dylib'', File (Bytes ''dylib''))]),
                       (''include'', Dir [(''discord_rpc.h'', File (Bytes ''header''))])])])
   \<and> fst (sign osx_env osx_globals installed_world) = None
   \<and> execs (trace (snd (sign osx_env osx_globals installed_world))) =
       [(''/repo'',
         [''/usr/bin/codesign'', ''--keychain'', ''/Users/ci/Library/Keychains/login.keychain'',
          ''-vvvv'', ''--deep'', ''--force'',
          ''--sign'', ''Developer ID Application: Hammer & Chisel Inc. (53Q6R32WPB)'',
          ''/repo/builds/install/osx-dynamic/lib/libdiscord-rpc.dylib''])]"
proof -
  let ?T = "Dir [(''osx-dynamic'', Dir
                      [(''lib'', Dir [(''libdiscord-rpc.dylib'', File (Bytes ''dylib''))]),
                       (''include'', Dir [(''discord_rpc.h'', File (Bytes ''header''))])])]"
  have plat: "PLATFORM osx_globals = ''win'' \<or> PLATFORM osx_globals = ''osx''"
    by (simp add: osx_globals_def)
  have tool: "get_signtool osx_env osx_globals = Inr (Some ''/usr/bin/codesign'')"
    by code_simp
  have r1: "resolve (os_flavour osx_env) (cwd installed_world) (INSTALL_ROOT osx_globals)
       = Some [''repo'', ''builds'', ''install'']"
    by code_simp
  have r2: "fs_lookup (fs installed_world) [''repo'', ''builds'', ''install''] = Some ?T"
    by code_simp
  have wf: "wf_node (os_flavour osx_env) ?T"
    by code_simp
  have good: "\<forall>f \<in> set (files_of ?T). signable osx_env osx_globals f \<longrightarrow>
        exit_status osx_env (cwd installed_world)
          (sign_command osx_env osx_globals ''/usr/bin/codesign''
             (os_path_join (os_flavour osx_env) (INSTALL_ROOT osx_globals) (fst f))) = 0"
    by (simp add: osx_env_def)
  have v: "execs (trace installed_world) @
        map (\<lambda>f. (cwd installed_world, sign_command osx_env osx_globals ''/usr/bin/codesign''
              (os_path_join (os_flavour osx_env) (INSTALL_ROOT osx_globals) (fst f))))
          (filter (signable osx_env osx_globals) (files_of ?T))
     = [(''/repo'',
         [''/usr/bin/codesign'', ''--keychain'', ''/Users/ci/Library/Keychains/login.keychain'',
          ''-vvvv'', ''--deep'', ''--force'',
          ''--sign'', ''Developer ID Application: Hammer & Chisel Inc. (53Q6R32WPB)'',
          ''/repo/builds/install/osx-dynamic/lib/libdiscord-rpc.dylib''])]"
    by code_simp
  from sign_once_per_signable_file [OF plat tool r1 r2 wf good]
  have a: "fst (sign osx_env osx_globals installed_world) = None"
    and b: "execs (trace (snd (sign osx_env osx_globals installed_world))) =
        execs (trace installed_world) @
        map (\<lambda>f. (cwd installed_world, sign_command osx_env osx_globals ''/usr/bin/codesign''
              (os_path_join (os_flavour osx_env) (INSTALL_ROOT osx_globals) (fst f))))
          (filter (signable osx_env osx_globals) (files_of ?T))"
    by blast+
  have p: "PLATFORM osx_globals = ''osx''"
    by (simp add: osx_globals_def)
  show ?thesis
    using p tool r1 r2 a b [unfolded v] by blast
qed


subsection \<open>Paths below the install root\<close>

lemma not_sep_dot: "\<not> is_sep fl CHR ''.''"
  by (simp add: is_sep_def)

lemma dot_free: "list_all (\<lambda>c. \<not> is_sep fl c) ''.''"
  by (simp add: is_sep_def)

lemma split_at_sep:
  "split_on (is_sep fl) (xs @ sep fl # ys) = split_on (is_sep fl) xs @ split_on (is_sep fl) ys"
  using is_sep_sep [of fl] by (rule split_on_append)

lemma split_free_sep:
  "list_all (\<lambda>c. \<not> is_sep fl c) n \<Longrightarrow>
   split_on (is_sep fl) (n @ sep fl # ys) = n # split_on (is_sep fl) ys"
  using is_sep_sep [of fl] by (simp add: split_on_free_sep)

lemma comps_of_abspath:
  assumes "list_all (plain fl) rc"
  shows "comps_of fl (abspath_of fl rc) = rc"
proof (cases "rc = []")
  case True
  then show ?thesis
    using is_sep_sep [of fl] by (simp add: comps_of_def abspath_of_def norm_step_skip)
next
  case False
  have "split_on (is_sep fl) (sep fl # str_join [sep fl] rc) = [] # rc"
    using is_sep_sep [of fl] split_on_sep_join [OF assms False] by simp
  then show ?thesis
    using assms by (simp add: comps_of_def abspath_of_def norm_step_skip foldl_norm_step_plain)
qed

lemma resolve_relative:
  assumes "p \<noteq> []" "\<not> is_sep fl (hd p)"
  shows "resolve fl d p = Some (foldl (norm_step True) (comps_of fl d) (split_on (is_sep fl) p))"
proof -
  have "split_on (is_sep fl) (d @ sep fl # p) = split_on (is_sep fl) d @ split_on (is_sep fl) p"
    by (rule split_at_sep)
  then show ?thesis
    using assms by (simp add: resolve_def comps_of_def)
qed

lemma resolve_dot:
  assumes "list_all (plain fl) rc"
  shows "resolve fl (abspath_of fl rc) ''.'' = Some rc"
proof -
  have "split_on (is_sep fl) ''.'' = [''.'']"
    by (rule split_on_free [OF dot_free])
  then show ?thesis
    using comps_of_abspath [OF assms] not_sep_dot [of fl]
    by (simp add: resolve_relative norm_step_skip del: split_on.simps)
qed

lemma dot_path:
  assumes "list_all (plain fl) p" "p \<noteq> []"
  shows "foldl (join2 fl) ''.'' p = ''.'' @ sep fl # str_join [sep fl] p"
  using assms not_sep_dot [of fl] by (simp add: foldl_join2_plain)

lemma split_dot_path:
  assumes "list_all (plain fl) p" "p \<noteq> []"
  shows "split_on (is_sep fl) (''.'' @ sep fl # str_join [sep fl] p) = ''.'' # p"
  using split_free_sep [OF dot_free, of fl "str_join [sep fl] p"]
    split_on_sep_join [OF assms]
  by (simp only:)

lemma resolve_rel:
  assumes rc: "list_all (plain fl) rc" and p: "list_all (plain fl) p" "p \<noteq> []"
  shows "resolve fl (abspath_of fl rc) (foldl (join2 fl) ''.'' p) = Some (rc @ p)"
proof -
  have "resolve fl (abspath_of fl rc) (''.'' @ sep fl # str_join [sep fl] p)
      = Some (foldl (norm_step True) (comps_of fl (abspath_of fl rc))
          (split_on (is_sep fl) (''.'' @ sep fl # str_join [sep fl] p)))"
    by (rule resolve_relative) (simp_all add: not_sep_dot)
  also have "\<dots> = Some (foldl (norm_step True) rc (''.'' # p))"
    by (simp only: split_dot_path [OF p] comps_of_abspath [OF rc])
  also have "\<dots> = Some (rc @ p)"
    using p by (simp add: norm_step_skip foldl_norm_step_plain)
  finally show ?thesis
    by (simp only: dot_path [OF p])
qed

lemma plain_discord: "plain fl ''discord-rpc''"
  by (simp add: plain_def is_sep_def)

lemma str_join_nonempty: "ns \<noteq> [] \<Longrightarrow> hd ns \<noteq> [] \<Longrightarrow> str_join s ns \<noteq> []"
  by (induction s ns rule: str_join.induct) auto

lemma hd_str_join: "n \<noteq> [] \<Longrightarrow> hd (str_join s (n # ns)) = hd n"
  by (cases ns) auto

lemma normpath_rel_plain:
  assumes "list_all (plain fl) ns" "ns \<noteq> []" and skip: "list_all (\<lambda>c. c = [] \<or> c = ''.'') ds"
    and split: "split_on (is_sep fl) path = hd ns # ds @ tl ns"
    and hd: "path \<noteq> []" "\<not> is_sep fl (hd path)"
  shows "os_path_normpath fl path = str_join [sep fl] ns"
proof -
  have sk: "foldl (norm_step r) acc ds = acc" for r acc
    using skip by (induction ds arbitrary: acc) (auto simp: norm_step_skip)
  have n: "plain fl (hd ns)" "list_all (plain fl) (tl ns)"
    using assms(1,2) by (cases ns; simp)+
  have "foldl (norm_step False) [] (hd ns # ds @ tl ns) = ns"
    using n assms(2) by (simp add: norm_step_plain sk foldl_norm_step_plain)
  moreover have "str_join [sep fl] ns \<noteq> []"
    using assms(1,2) by (intro str_join_nonempty) (cases ns; simp add: plain_def)+
  ultimately show ?thesis
    using hd by (simp add: os_path_normpath_def split Let_def)
qed

lemma dst_path:
  assumes p: "list_all (plain fl) p" "p \<noteq> []"
  shows "os_path_normpath fl (os_path_join fl ''discord-rpc'' [foldl (join2 fl) ''.'' p])
      = str_join [sep fl] (''discord-rpc'' # p)"
proof -
  let ?rel = "''.'' @ sep fl # str_join [sep fl] p"
  let ?path = "''discord-rpc'' @ sep fl # ?rel"
  have j: "os_path_join fl ''discord-rpc'' [foldl (join2 fl) ''.'' p] = ?path"
    by (simp add: os_path_join_def dot_path [OF p] join2_def is_sep_def)
  have "split_on (is_sep fl) ?path = ''discord-rpc'' # split_on (is_sep fl) ?rel"
    by (rule split_free_sep [OF plain_free [OF plain_discord]])
  then have s: "split_on (is_sep fl) ?path
      = hd (''discord-rpc'' # p) # [''.''] @ tl (''discord-rpc'' # p)"
    by (simp only: split_dot_path [OF p]) simp
  show ?thesis
    unfolding j
    by (rule normpath_rel_plain [OF _ _ _ s]) (use p plain_discord in \<open>simp_all add: is_sep_def\<close>)
qed

lemma normpath_plain_join:
  assumes "list_all (plain fl) ns" "ns \<noteq> []"
  shows "os_path_normpath fl (str_join [sep fl] ns) = str_join [sep fl] ns"
proof -
  obtain n ms where ns: "ns = n # ms" using assms(2) by (cases ns) auto
  have n: "n \<noteq> []" "\<not> is_sep fl (hd n)"
    using assms(1) ns by (cases n; simp add: plain_def)+
  have s: "split_on (is_sep fl) (str_join [sep fl] ns) = hd ns # [] @ tl ns"
    using split_on_sep_join [OF assms] assms(2) by simp
  show ?thesis
  proof (rule normpath_rel_plain [OF assms _ s])
    show "str_join [sep fl] ns \<noteq> []"
      using n ns by (intro str_join_nonempty) simp_all
    show "\<not> is_sep fl (hd (str_join [sep fl] ns))"
      using n by (simp add: ns hd_str_join)
  qed simp
qed

lemma map_sep_free: "s \<notin> set n \<Longrightarrow> map (\<lambda>c. if c = s then r else c) n = n"
  by (induction n) auto

lemma map_sep_str_join:
  "list_all (plain fl) ns \<Longrightarrow>
   map (\<lambda>c. if c = sep fl then CHR ''/'' else c) (str_join [sep fl] ns) = str_join ''/'' ns"
proof (induction ns rule: induct_list012)
  case 1
  then show ?case by simp
next
  case (2 n)
  then have "sep fl \<notin> set n"
    using is_sep_sep [of fl] by (auto simp: plain_def list_all_iff)
  then show ?case by (simp add: map_sep_free)
next
  case (3 n m ms)
  then have "sep fl \<notin> set n"
    using is_sep_sep [of fl] by (auto simp: plain_def list_all_iff)
  then have "map (\<lambda>c. if c = sep fl then CHR ''/'' else c) n = n"
    by (rule map_sep_free)
  then show ?case using 3 by simp
qed

lemma set_str_join: "set (str_join s ns) \<subseteq> set s \<union> \<Union> (set ` set ns)"
  by (induction s ns rule: str_join.induct) auto

lemma sep_not_nul: "sep fl \<noteq> CHR 0x00"
  by (cases fl) (simp_all add: sep_def)

lemma zip_arcname_plain:
  assumes p: "list_all (plain fl) p" "p \<noteq> []" and nul: "list_all (\<lambda>n. CHR 0x00 \<notin> set n) p"
  shows "zip_arcname fl (str_join [sep fl] (''discord-rpc'' # p)) = ''discord-rpc/'' @ str_join ''/'' p"
proof -
  let ?ns = "''discord-rpc'' # p"
  let ?s = "str_join [sep fl] ?ns"
  have ns: "list_all (plain fl) ?ns" "?ns \<noteq> []"
    using p plain_discord by simp_all
  have norm: "os_path_normpath fl ?s = ?s"
    by (rule normpath_plain_join [OF ns])
  have hd: "?s \<noteq> []" "\<not> is_sep fl (hd ?s)"
    by (simp_all add: hd_str_join is_sep_def str_join_nonempty)
  then have drop: "dropWhile (is_sep fl) ?s = ?s"
    by (cases ?s) auto
  have "CHR 0x00 \<notin> set ?s"
  proof
    assume "CHR 0x00 \<in> set ?s"
    then have "CHR 0x00 \<in> set [sep fl] \<union> \<Union> (set ` set ?ns)"
      using set_str_join [of "[sep fl]" ?ns] by blast
    then show False
      using nul sep_not_nul [of fl] by (auto simp: list_all_iff)
  qed
  then have take: "takeWhile (\<lambda>c. c \<noteq> CHR 0x00) ?s = ?s"
    by (simp add: takeWhile_eq_all_conv) metis
  obtain n ms where pp: "p = n # ms" using p(2) by (cases p) auto
  have "str_join ''/'' ?ns = ''discord-rpc/'' @ str_join ''/'' p"
    by (simp add: pp)
  then show ?thesis
    unfolding zip_arcname_def norm drop take
    by (simp only: map_sep_str_join [OF ns(1)])
qed

subsection \<open>The archive loop\<close>

lemma fs_put_at: "fs_lookup t p = Some y \<Longrightarrow> fs_lookup (fs_put p x t) p = Some x"
proof (induction p arbitrary: t)
  case Nil
  then show ?case by simp
next
  case (Cons c cs)
  then show ?case
    by (cases t) (auto simp: update_conv' split: option.splits)
qed

lemma fs_put_id: "fs_lookup t p = Some x \<Longrightarrow> fs_put p x t = t"
proof (induction p arbitrary: t)
  case Nil
  then show ?case by simp
next
  case (Cons c cs)
  then show ?case
    by (cases t) (auto simp: update_triv split: option.splits)
qed

lemma fs_put_keeps_dirs:
  "fs_lookup t q = Some (Dir a) \<Longrightarrow> (\<forall>es. fs_lookup t p \<noteq> Some (Dir es)) \<Longrightarrow>
   \<exists>b. fs_lookup (fs_put p x t) q = Some (Dir b)"
proof (induction p arbitrary: q t)
  case Nil
  then show ?case
    by (cases q; cases t) auto
next
  case (Cons c cs)
  show ?case
  proof (cases t)
    case (Dir es)
    show ?thesis
    proof (cases q)
      case Nil
      then show ?thesis
        using Dir by (auto split: option.splits)
    next
      case (Cons d ds)
      show ?thesis
      proof (cases "d = c")
        case False
        then show ?thesis
          using Cons.prems(1) Dir Cons by (auto simp: update_conv' split: option.splits)
      next
        case True
        from Cons.prems(1) obtain m where m: "map_of es c = Some m"
          and l: "fs_lookup m ds = Some (Dir a)"
          using Dir Cons True by (auto split: option.splits)
        have nd: "\<forall>es. fs_lookup m cs \<noteq> Some (Dir es)"
          using Cons.prems(2) Dir m by simp
        show ?thesis
        proof (cases "cs = []")
          case True
          then have "\<forall>es. m \<noteq> Dir es" using nd by simp
          then have False using l by (cases ds; cases m) auto
          then show ?thesis ..
        next
          case False
          then show ?thesis
            using Cons.IH [OF l nd] Dir Cons \<open>d = c\<close> m by (simp add: update_conv')
        qed
      qed
    qed
  next
    case (File d)
    then show ?thesis using Cons.prems(1) by simp
  next
    case Denied
    then show ?thesis using Cons.prems(1) by simp
  qed
qed

lemma archive_loop:
  fixes e zp
  defines "fl \<equiv> os_flavour e"
  defines "body \<equiv> (\<lambda>(p, x).
      (let fpath = os_path_join fl (foldl (join2 fl) ''.'' (butlast p)) [last p];
           dst_path = os_path_normpath fl (os_path_join fl ''discord-rpc'' [fpath])
       in then_do (click_echo (''Adding '' @ dst_path)) (zipfile_write fl zp fpath dst_path)))"
  assumes cwd: "cwd w = abspath_of fl rc" and rc: "list_all (plain fl) rc"
    and zip: "fs_lookup (fs w) zp = Some (File (Entries ms))"
    and frame: "zp = c @ a # z" "rc = c @ b # r" "a \<noteq> b"
    and files: "\<And>f. f \<in> set xs \<Longrightarrow>
        list_all (plain fl) (fst f) \<and> list_all (\<lambda>n. CHR 0x00 \<notin> set n) (fst f) \<and> fst f \<noteq> []
        \<and> fs_lookup (fs w) (rc @ fst f) = Some (snd f) \<and> \<not> is_dir (snd f)"
  shows "(fst (for_each body xs w) = None) = list_all readable xs
       \<and> fs (snd (for_each body xs w)) =
           fs_put zp (File (Entries (ms @ map member_of (takeWhile readable xs)))) (fs w)
       \<and> cwd (snd (for_each body xs w)) = cwd w"
  using cwd zip files
proof (induction xs arbitrary: w ms)
  case Nil
  then show ?case by (simp add: fs_put_id)
next
  case (Cons f xs)
  obtain p x where f: "f = (p, x)" by (cases f)
  from Cons.prems(3) [of f] have p: "list_all (plain fl) p" "p \<noteq> []"
    and nul: "list_all (\<lambda>n. CHR 0x00 \<notin> set n) p"
    and look: "fs_lookup (fs w) (rc @ p) = Some x" and nd: "\<not> is_dir x"
    by (simp_all add: f)
  let ?fpath = "foldl (join2 fl) ''.'' p"
  let ?dst = "str_join [sep fl] (''discord-rpc'' # p)"
  let ?w0 = "w\<lparr>trace := trace w @ [Echo (''Adding '' @ ?dst)]\<rparr>"
  have fpath: "os_path_join fl (foldl (join2 fl) ''.'' (butlast p)) [last p] = ?fpath"
    using p(2) unfolding os_path_join_def
    by (metis append_butlast_last_id foldl_Cons foldl_Nil foldl_append)
  have res: "resolve fl (cwd w) ?fpath = Some (rc @ p)"
    unfolding Cons.prems(1) by (rule resolve_rel [OF rc p])
  have step: "body f w = then_do (click_echo (''Adding '' @ ?dst)) (zipfile_write fl zp ?fpath ?dst) w"
    by (simp add: body_def f fpath dst_path [OF p] Let_def)
  show ?case
  proof (cases "x = Denied")
    case True
    then have "body f w = (Some (PermissionError ?fpath), ?w0)"
      using res look by (simp add: step then_do_def click_echo_def zipfile_write_def)
    then show ?thesis
      using True f Cons.prems(2) by (simp add: readable_def fs_put_id)
  next
    case False
    then obtain d where x: "x = File d" using nd by (cases x) (auto simp: is_dir_def)
    let ?m = "member_of (p, x)"
    let ?w1 = "?w0\<lparr>fs := fs_put zp (File (Entries (ms @ [?m]))) (fs w)\<rparr>"
    have m: "member_of (p, File d) = (zip_arcname fl ?dst, d)"
      by (simp add: member_of_def zip_arcname_plain [OF p nul])
    have b: "body f w = (None, ?w1)"
      using res look Cons.prems(2)
      by (simp add: step then_do_def click_echo_def zipfile_write_def x m)
    have zip1: "fs_lookup (fs ?w1) zp = Some (File (Entries (ms @ [?m])))"
      using fs_put_at [OF Cons.prems(2)] by simp
    have files1: "list_all (plain fl) (fst f') \<and> list_all (\<lambda>n. CHR 0x00 \<notin> set n) (fst f') \<and> fst f' \<noteq> []
        \<and> fs_lookup (fs ?w1) (rc @ fst f') = Some (snd f') \<and> \<not> is_dir (snd f')"
      if "f' \<in> set xs" for f'
    proof -
      have "fs_lookup (fs_put (c @ a # z) (File (Entries (ms @ [?m]))) (fs w)) (c @ b # r @ fst f')
          = fs_lookup (fs w) (c @ b # r @ fst f')"
        by (rule fs_put_other [OF frame(3)])
      then show ?thesis
        using Cons.prems(3) [of f'] that frame(1,2) by simp
    qed
    have cwd1: "cwd ?w1 = abspath_of fl rc"
      using Cons.prems(1) by simp
    note IH = Cons.IH [OF cwd1 zip1 files1]
    have r: "readable f" using False f by (simp add: readable_def)
    have e: "for_each body (f # xs) w = for_each body xs ?w1"
      using b by simp
    have tw: "takeWhile readable (f # xs) = f # takeWhile readable xs"
      "list_all readable (f # xs) = list_all readable xs"
      using r by simp_all
    show ?thesis
      unfolding e tw using IH by (simp add: fs_put_put f)
  qed
qed

lemma module_globals_facts:
  assumes "module_globals e = Inr g"
  shows "SCRIPT_PATH g = script_dir e"
    and "INSTALL_ROOT g = os_path_join (os_flavour e) (script_dir e) [''builds'', ''install'']"
    and "get_platform (sys_platform e) = Inr (PLATFORM g)"
    and "PLATFORM g = ''win'' \<or> PLATFORM g = ''osx'' \<or> PLATFORM g = ''linux''"
  using assms
  by (auto simp: module_globals_def Let_def get_platform_def split: sum.splits if_splits)

lemma plain_install: "plain fl ''install''"
  by (simp add: plain_def is_sep_def)

lemma plain_zip_name:
  "pl = ''win'' \<or> pl = ''osx'' \<or> pl = ''linux'' \<Longrightarrow> plain fl (''discord-rpc-'' @ pl @ ''.zip'')"
  by (auto simp: plain_def is_sep_def)

lemma zip_name_not_install:
  "''discord-rpc-'' @ pl @ ''.zip'' \<noteq> ''install''"
  by simp

lemma resolve_two:
  assumes "is_abs fl S" "plain fl a" "plain fl b"
  shows "resolve fl d (os_path_join fl S [a, b]) = Some (comps_of fl S @ [a, b])"
    and "os_path_join fl S [a, b] \<noteq> []"
proof -
  have ab: "is_abs fl (join2 fl (join2 fl S a) b)"
    by (intro join2_abs assms)
  then show "resolve fl d (os_path_join fl S [a, b]) = Some (comps_of fl S @ [a, b])"
    by (simp add: os_path_join_def resolve_abs comps_of_join2 assms)
  show "os_path_join fl S [a, b] \<noteq> []"
    using ab by (auto simp: os_path_join_def is_abs_def)
qed

lemma archive_setup:
  assumes mg: "module_globals e = Inr g" and abs: "is_abs (os_flavour e) (script_dir e)"
  shows "resolve (os_flavour e) d
           (os_path_join (os_flavour e) (SCRIPT_PATH g) [''builds'', ''discord-rpc-'' @ PLATFORM g @ ''.zip''])
         = Some (archive_comps e g)"
    and "resolve (os_flavour e) d (INSTALL_ROOT g)
         = Some (comps_of (os_flavour e) (SCRIPT_PATH g) @ [''builds'', ''install''])"
    and "INSTALL_ROOT g \<noteq> []"
proof -
  let ?fl = "os_flavour e"
  note f = module_globals_facts [OF mg]
  have abs': "is_abs ?fl (SCRIPT_PATH g)"
    using abs by (simp only: f(1))
  have z: "plain ?fl (''discord-rpc-'' @ PLATFORM g @ ''.zip'')"
    by (rule plain_zip_name [OF f(4)])
  show "resolve ?fl d (os_path_join ?fl (SCRIPT_PATH g) [''builds'', ''discord-rpc-'' @ PLATFORM g @ ''.zip''])
      = Some (archive_comps e g)"
    unfolding archive_comps_def by (rule resolve_two(1) [OF abs' plain_builds z])
  have r: "INSTALL_ROOT g = os_path_join ?fl (SCRIPT_PATH g) [''builds'', ''install'']"
    by (simp only: f(1,2))
  show "resolve ?fl d (INSTALL_ROOT g) = Some (comps_of ?fl (SCRIPT_PATH g) @ [''builds'', ''install''])"
    unfolding r by (rule resolve_two(1) [OF abs' plain_builds plain_install])
  show "INSTALL_ROOT g \<noteq> []"
    unfolding r by (rule resolve_two(2) [OF abs' plain_builds plain_install])
qed

lemma zip_open_ok:
  assumes "resolve fl (cwd w) path = Some zp" "zp \<noteq> []"
    and "fs_lookup (fs w) (butlast zp) = Some (Dir bs)"
    and "\<forall>es. fs_lookup (fs w) zp \<noteq> Some (Dir es)" "fs_lookup (fs w) zp \<noteq> Some Denied"
  shows "zipfile_ZipFile fl path w = (Inr zp, w\<lparr>fs := fs_put zp (File (Entries [])) (fs w)\<rparr>)"
  using assms by (auto simp: zipfile_ZipFile_def split: option.splits node.splits)

lemma archive_opened:
  assumes mg: "module_globals e = Inr g" and abs: "is_abs (os_flavour e) (script_dir e)"
    and builds: "fs_lookup (fs w) (comps_of (os_flavour e) (SCRIPT_PATH g) @ [''builds'']) = Some (Dir bs)"
    and slot: "\<forall>es. map_of bs (''discord-rpc-'' @ PLATFORM g @ ''.zip'') \<noteq> Some (Dir es)"
      "map_of bs (''discord-rpc-'' @ PLATFORM g @ ''.zip'') \<noteq> Some Denied"
  shows "archive e g w =
     cd e (INSTALL_ROOT g)
       (\<lambda>w. for_each (\<lambda>(path, ds, filenames).
                for_each (\<lambda>fname.
                  (let fpath = os_path_join (os_flavour e) path [fname];
                       dst_path = os_path_normpath (os_flavour e)
                         (os_path_join (os_flavour e) ''discord-rpc'' [fpath])
                   in then_do (click_echo (''Adding '' @ dst_path))
                        (zipfile_write (os_flavour e) (archive_comps e g) fpath dst_path)))
                  filenames)
              (os_walk (os_flavour e) ''.'' w) w)
       (w\<lparr>trace := trace w @ [Echo ''--- Archiving''],
          fs := fs_put (archive_comps e g) (File (Entries [])) (fs w)\<rparr>)"
proof -
  let ?fl = "os_flavour e"
  let ?w0 = "w\<lparr>trace := trace w @ [Echo ''--- Archiving'']\<rparr>"
  let ?zn = "''discord-rpc-'' @ PLATFORM g @ ''.zip''"
  note f = module_globals_facts [OF mg]
  note s = archive_setup [OF mg abs]
  have zp: "archive_comps e g = (comps_of ?fl (SCRIPT_PATH g) @ [''builds'']) @ [?zn]"
    by (simp add: archive_comps_def)
  have look: "fs_lookup (fs w) (archive_comps e g) = map_of bs ?zn"
    unfolding zp using builds by (rule fs_lookup_snoc_dir)
  have parent: "fs_lookup (fs w) (butlast (archive_comps e g)) = Some (Dir bs)"
    unfolding zp butlast_snoc by (rule builds)
  have ne: "archive_comps e g \<noteq> []"
    by (simp add: archive_comps_def)
  have open': "zipfile_ZipFile ?fl
      (os_path_join ?fl (SCRIPT_PATH g) [''builds'', ?zn]) ?w0
      = (Inr (archive_comps e g), ?w0\<lparr>fs := fs_put (archive_comps e g) (File (Entries [])) (fs ?w0)\<rparr>)"
  proof (rule zip_open_ok [OF s(1) ne])
    show "fs_lookup (fs ?w0) (butlast (archive_comps e g)) = Some (Dir bs)"
      using parent by simp
    show "\<forall>es. fs_lookup (fs ?w0) (archive_comps e g) \<noteq> Some (Dir es)"
      using slot(1) look by simp
    show "fs_lookup (fs ?w0) (archive_comps e g) \<noteq> Some Denied"
      using slot(2) look by simp
  qed
  have w: "?w0\<lparr>fs := fs_put (archive_comps e g) (File (Entries [])) (fs ?w0)\<rparr>
      = w\<lparr>trace := trace w @ [Echo ''--- Archiving''],
          fs := fs_put (archive_comps e g) (File (Entries [])) (fs w)\<rparr>"
    by simp
  show ?thesis
    unfolding archive_def then_do_def click_echo_def bind_val_def Let_def f(3)
    by (simp only: prod.case sum.case option.case open' w)
qed

lemma cd_entered:
  "new_dir \<noteq> [] \<Longrightarrow> os_chdir (os_flavour e) new_dir w = (None, w1) \<Longrightarrow>
   cd e new_dir body w =
     (case body w1 of
        (Some x, w2) \<Rightarrow> (Some x, w2)
      | (None, w2) \<Rightarrow> os_chdir (os_flavour e) (cwd w) w2)"
  by (simp add: cd_def os_getcwd_def Let_def)

lemma cd_refused:
  "new_dir \<noteq> [] \<Longrightarrow> os_chdir (os_flavour e) new_dir w = (Some x, w1) \<Longrightarrow>
   cd e new_dir body w = (Some x, w1)"
  by (simp add: cd_def os_getcwd_def Let_def)

lemma archive_run:
  assumes mg: "module_globals e = Inr g" and abs: "is_abs (os_flavour e) (script_dir e)"
    and builds: "fs_lookup (fs w) (comps_of (os_flavour e) (SCRIPT_PATH g) @ [''builds'']) = Some (Dir bs)"
    and slot: "\<forall>es. map_of bs (''discord-rpc-'' @ PLATFORM g @ ''.zip'') \<noteq> Some (Dir es)"
      "map_of bs (''discord-rpc-'' @ PLATFORM g @ ''.zip'') \<noteq> Some Denied"
  shows "(\<forall>es. map_of bs ''install'' \<noteq> Some (Dir es)) \<Longrightarrow>
           fst (archive e g w) \<noteq> None
           \<and> fs (snd (archive e g w)) = fs_put (archive_comps e g) (File (Entries [])) (fs w)"
    and "map_of bs ''install'' = Some (Dir es) \<Longrightarrow> wf_node (os_flavour e) (Dir es) \<Longrightarrow>
           fs (snd (archive e g w)) =
             fs_put (archive_comps e g)
               (File (Entries (map member_of (takeWhile readable (files_of (Dir es)))))) (fs w)
           \<and> (\<not> list_all readable (files_of (Dir es)) \<longrightarrow> fst (archive e g w) \<noteq> None)
           \<and> (list_all readable (files_of (Dir es)) \<and> is_abs (os_flavour e) (cwd w)
                \<and> (\<exists>ds. fs_lookup (fs w) (comps_of (os_flavour e) (cwd w)) = Some (Dir ds))
              \<longrightarrow> fst (archive e g w) = None)"
proof -
  let ?fl = "os_flavour e"
  let ?zp = "archive_comps e g"
  let ?sc = "comps_of ?fl (SCRIPT_PATH g)"
  let ?rc = "?sc @ [''builds'', ''install'']"
  let ?zn = "''discord-rpc-'' @ PLATFORM g @ ''.zip''"
  let ?W1 = "w\<lparr>trace := trace w @ [Echo ''--- Archiving''],
          fs := fs_put ?zp (File (Entries [])) (fs w)\<rparr>"
  let ?loop = "(\<lambda>w. for_each (\<lambda>(path, ds, filenames).
                for_each (\<lambda>fname.
                  (let fpath = os_path_join ?fl path [fname];
                       dst_path = os_path_normpath ?fl (os_path_join ?fl ''discord-rpc'' [fpath])
                   in then_do (click_echo (''Adding '' @ dst_path))
                        (zipfile_write ?fl ?zp fpath dst_path)))
                  filenames)
              (os_walk ?fl ''.'' w) w)"
  note s = archive_setup [OF mg abs]
  have run: "archive e g w = cd e (INSTALL_ROOT g) ?loop ?W1"
    by (rule archive_opened [OF mg abs builds slot])
  have zp: "?zp = (?sc @ [''builds'']) @ ?zn # []" and rc: "?rc = (?sc @ [''builds'']) @ ''install'' # []"
    by (simp_all add: archive_comps_def)
  have other: "fs_lookup (fs_put ?zp x (fs w)) (?rc @ q) = fs_lookup (fs w) (?rc @ q)" for x q
  proof -
    have "fs_lookup (fs_put ((?sc @ [''builds'']) @ ?zn # []) x (fs w))
            ((?sc @ [''builds'']) @ ''install'' # q)
        = fs_lookup (fs w) ((?sc @ [''builds'']) @ ''install'' # q)"
      by (rule fs_put_other) simp
    then show ?thesis
      by (simp add: archive_comps_def)
  qed
  have root: "fs_lookup (fs w) ?rc = map_of bs ''install''"
    using fs_lookup_snoc_dir [OF builds, of "''install''"] by simp
  have root1: "fs_lookup (fs ?W1) ?rc = map_of bs ''install''"
    using other [of _ "[]"] root by simp
  have rc_plain: "list_all (plain ?fl) ?rc"
    using comps_of_plain_all [of ?fl "SCRIPT_PATH g"] plain_builds plain_install by simp
  {
    assume "\<forall>es. map_of bs ''install'' \<noteq> Some (Dir es)"
    then have "\<exists>x. os_chdir ?fl (INSTALL_ROOT g) ?W1 = (Some x, ?W1)"
      using root1 by (auto simp: os_chdir_def s(2) split: option.splits node.splits)
    then obtain x where "os_chdir ?fl (INSTALL_ROOT g) ?W1 = (Some x, ?W1)" ..
    then have "archive e g w = (Some x, ?W1)"
      unfolding run by (rule cd_refused [OF s(3)])
    then show "fst (archive e g w) \<noteq> None
        \<and> fs (snd (archive e g w)) = fs_put ?zp (File (Entries [])) (fs w)"
      by simp
  }
  {
    assume inst: "map_of bs ''install'' = Some (Dir es)" and wf: "wf_node ?fl (Dir es)"
    let ?T = "Dir es"
    let ?W2 = "?W1\<lparr>cwd := abspath_of ?fl ?rc\<rparr>"
    have ch: "os_chdir ?fl (INSTALL_ROOT g) ?W1 = (None, ?W2)"
      using root1 inst by (simp add: os_chdir_def s(2))
    have walk: "os_walk ?fl ''.'' ?W2 = walk ?fl ''.'' ?T"
    proof (rule os_walk_at)
      show "resolve ?fl (cwd ?W2) ''.'' = Some ?rc"
        using resolve_dot [OF rc_plain] by simp
      show "fs_lookup (fs ?W2) ?rc = Some ?T"
        using root1 inst by simp
    qed
    let ?B = "\<lambda>path fname.
        (let fpath = os_path_join ?fl path [fname];
             dst_path = os_path_normpath ?fl (os_path_join ?fl ''discord-rpc'' [fpath])
         in then_do (click_echo (''Adding '' @ dst_path))
              (zipfile_write ?fl ?zp fpath dst_path))"
    let ?body = "(\<lambda>(p, x).
      (let fpath = os_path_join ?fl (foldl (join2 ?fl) ''.'' (butlast p)) [last p];
           dst_path = os_path_normpath ?fl (os_path_join ?fl ''discord-rpc'' [fpath])
       in then_do (click_echo (''Adding '' @ dst_path)) (zipfile_write ?fl ?zp fpath dst_path)))"
    have "?loop ?W2 = for_each (\<lambda>(path, ds, fns). for_each (?B path) fns) (walk ?fl ''.'' ?T) ?W2"
      by (simp only: walk)
    also have "\<dots> = for_each (\<lambda>(path, fname). ?B path fname) (walk_pairs (walk ?fl ''.'' ?T)) ?W2"
      by (simp only: for_each_walk)
    also have "\<dots> = for_each (\<lambda>f. (\<lambda>(path, fname). ?B path fname)
        ((\<lambda>(p, x). (foldl (join2 ?fl) ''.'' (butlast p), last p)) f)) (files_of ?T) ?W2"
      by (simp only: walk_files for_each_map)
    also have "\<dots> = for_each ?body (files_of ?T) ?W2"
      by (rule for_each_cong) (simp add: split_def)
    finally have loop_eq: "?loop ?W2 = for_each ?body (files_of ?T) ?W2" .
    have zip2: "fs_lookup (fs ?W2) ?zp = Some (File (Entries []))"
    proof -
      have parent: "fs_lookup (fs w) (butlast ?zp) = Some (Dir bs)"
        unfolding zp butlast_snoc by (rule builds)
      have ne: "?zp \<noteq> []"
        by (simp add: archive_comps_def)
      have "fs_lookup (fs_put ?zp (File (Entries [])) (fs w)) ?zp = Some (File (Entries []))"
        by (rule fs_put_same [OF ne parent])
      then show ?thesis by simp
    qed
    have files: "list_all (plain ?fl) (fst f) \<and> list_all (\<lambda>n. CHR 0x00 \<notin> set n) (fst f) \<and> fst f \<noteq> []
        \<and> fs_lookup (fs ?W2) (?rc @ fst f) = Some (snd f) \<and> \<not> is_dir (snd f)"
      if "f \<in> set (files_of ?T)" for f
    proof -
      obtain p x where f: "f = (p, x)" by (cases f)
      have m: "(p, x) \<in> set (files_of ?T)" using that f by simp
      have l: "p \<noteq> []" "fs_lookup ?T p = Some x" "\<not> is_dir x"
        using files_of_lookup [OF wf, of p x] m by simp_all
      have "fs_lookup (fs ?W2) (?rc @ p) = fs_lookup (fs w) (?rc @ p)"
        using other [of _ p] by simp
      also have "\<dots> = fs_lookup ?T p"
        using fs_lookup_append [of "fs w" ?rc ?T p] root inst by simp
      finally show ?thesis
        using files_of_names(1) [OF wf m] l by (simp add: f)
    qed
    have cwd2: "cwd ?W2 = abspath_of ?fl ?rc"
      by simp
    note L = archive_loop [OF cwd2 rc_plain zip2 zp rc zip_name_not_install files, of "files_of ?T"]
    have fs3: "fs (snd (for_each ?body (files_of ?T) ?W2)) =
        fs_put ?zp (File (Entries (map member_of (takeWhile readable (files_of ?T))))) (fs w)"
      using L by (simp add: fs_put_put)
    have r3: "(fst (for_each ?body (files_of ?T) ?W2) = None) = list_all readable (files_of ?T)"
      using L by simp
    obtain r w3 where out: "for_each ?body (files_of ?T) ?W2 = (r, w3)"
      by (cases "for_each ?body (files_of ?T) ?W2")
    have a: "archive e g w = (case r of None \<Rightarrow> os_chdir ?fl (cwd w) w3 | Some x \<Rightarrow> (Some x, w3))"
      unfolding run cd_entered [OF s(3) ch] loop_eq out
      by (simp split: option.splits)
    have fsa: "fs (snd (archive e g w)) = fs w3"
      by (cases r) (simp_all add: a os_chdir_snd)
    have restore: "fst (os_chdir ?fl (cwd w) w3) = None"
      if c: "is_abs ?fl (cwd w)" "fs_lookup (fs w) (comps_of ?fl (cwd w)) = Some (Dir ds)" for ds
    proof -
      have nodir: "\<forall>es. fs_lookup (fs w) ?zp \<noteq> Some (Dir es)"
        using slot(1) fs_lookup_snoc_dir [OF builds, of ?zn] by (simp add: archive_comps_def)
      from fs_put_keeps_dirs [OF c(2) nodir] obtain b where
        "fs_lookup (fs w3) (comps_of ?fl (cwd w)) = Some (Dir b)"
        using fs3 out by auto
      then show ?thesis
        by (simp add: os_chdir_def resolve_abs [OF c(1)])
    qed
    show "fs (snd (archive e g w)) =
             fs_put ?zp (File (Entries (map member_of (takeWhile readable (files_of ?T))))) (fs w)
           \<and> (\<not> list_all readable (files_of ?T) \<longrightarrow> fst (archive e g w) \<noteq> None)
           \<and> (list_all readable (files_of ?T) \<and> is_abs ?fl (cwd w)
                \<and> (\<exists>ds. fs_lookup (fs w) (comps_of ?fl (cwd w)) = Some (Dir ds))
              \<longrightarrow> fst (archive e g w) = None)"
      using fsa fs3 r3 out restore by (cases r) (auto simp: a)
  }
qed

lemma startswith_append: "startswith (p @ s) p"
  by (simp add: startswith_def)

lemma archive_zip_lookup:
  assumes builds: "fs_lookup (fs w) (comps_of (os_flavour e) (SCRIPT_PATH g) @ [''builds'']) = Some (Dir bs)"
  shows "fs_lookup (fs_put (archive_comps e g) x (fs w)) (archive_comps e g) = Some x"
proof -
  have zp: "archive_comps e g = (comps_of (os_flavour e) (SCRIPT_PATH g) @ [''builds''])
      @ [''discord-rpc-'' @ PLATFORM g @ ''.zip'']"
    by (simp add: archive_comps_def)
  have parent: "fs_lookup (fs w) (butlast (archive_comps e g)) = Some (Dir bs)"
    unfolding zp butlast_snoc by (rule builds)
  have ne: "archive_comps e g \<noteq> []"
    by (simp add: archive_comps_def)
  show ?thesis
    by (rule fs_put_same [OF ne parent])
qed

text \<open>
  C4: let the script's directory be absolute, \<open>builds\<close> a directory whose entry for the
  archive is no directory and can be written, \<open>builds/install\<close> a well-formed tree whose files
  can all be read, and the working directory an existing directory. Then \<open>archive\<close>
  returns normally and the archive holds one member for each file below the install root,
  in the order of the walk: the content of the file under the internal path \<open>discord-rpc/\<close>
  joined with the file's path relative to the root. The files below the root are the
  regular files that a path from the root reaches, each listed once, so no file is
  omitted and none comes from elsewhere; every internal path begins with \<open>discord-rpc/\<close>.
\<close>

theorem archive_members:
  assumes mg: "module_globals e = Inr g" and abs: "is_abs (os_flavour e) (script_dir e)"
    and builds: "fs_lookup (fs w) (comps_of (os_flavour e) (SCRIPT_PATH g) @ [''builds'']) = Some (Dir bs)"
    and slot: "\<forall>es. map_of bs (''discord-rpc-'' @ PLATFORM g @ ''.zip'') \<noteq> Some (Dir es)"
      "map_of bs (''discord-rpc-'' @ PLATFORM g @ ''.zip'') \<noteq> Some Denied"
    and inst: "map_of bs ''install'' = Some (Dir es)" and wf: "wf_node (os_flavour e) (Dir es)"
    and rd: "list_all readable (files_of (Dir es))"
    and cwd: "is_abs (os_flavour e) (cwd w)"
      "fs_lookup (fs w) (comps_of (os_flavour e) (cwd w)) = Some (Dir ds)"
  shows "fst (archive e g w) = None
    \<and> fs_lookup (fs (snd (archive e g w))) (archive_comps e g)
        = Some (File (Entries (map member_of (files_of (Dir es)))))
    \<and> (\<forall>p d. ((p, File d) \<in> set (files_of (Dir es))) = (fs_lookup (Dir es) p = Some (File d)))
    \<and> (\<forall>f \<in> set (files_of (Dir es)). \<exists>d. snd f = File d)
    \<and> distinct (map fst (files_of (Dir es)))
    \<and> list_all (\<lambda>m. startswith (fst m) ''discord-rpc/'') (map member_of (files_of (Dir es)))"
proof -
  note run = archive_run(2) [OF mg abs builds slot inst wf]
  have tw: "takeWhile readable (files_of (Dir es)) = files_of (Dir es)"
    using rd by (simp add: takeWhile_eq_all_conv list_all_iff del: files_of.simps)
  have ok: "fst (archive e g w) = None"
    using run rd cwd by blast
  have zipc: "fs_lookup (fs (snd (archive e g w))) (archive_comps e g)
        = Some (File (Entries (map member_of (files_of (Dir es)))))"
    using run archive_zip_lookup [OF builds] by (simp add: tw del: files_of.simps)
  have look: "((p, File d) \<in> set (files_of (Dir es))) = (fs_lookup (Dir es) p = Some (File d))" for p d
    using files_of_lookup [OF wf, of p "File d"]
    by (cases p) (auto simp: is_dir_def simp del: files_of.simps)
  have reg: "\<exists>d. snd f = File d" if "f \<in> set (files_of (Dir es))" for f
  proof -
    have "\<not> is_dir (snd f)"
      using files_of_lookup [OF wf, of "fst f" "snd f"] that by (simp del: files_of.simps)
    moreover have "snd f \<noteq> Denied"
      using rd that by (auto simp: list_all_iff readable_def simp del: files_of.simps)
    ultimately show ?thesis
      by (cases "snd f") (auto simp: is_dir_def)
  qed
  have d: "distinct (map fst (files_of (Dir es)))"
    using wf by (rule files_of_distinct)
  have pre: "list_all (\<lambda>m. startswith (fst m) ''discord-rpc/'') (map member_of (files_of (Dir es)))"
    using startswith_append [of "''discord-rpc/''"]
    by (simp add: list_all_iff member_of_def del: files_of.simps)
  show ?thesis
    using ok zipc look reg d pre by blast
qed

theorem archive_members_witness:
  "module_globals osx_env = Inr osx_globals
   \<and> is_abs (os_flavour osx_env) (script_dir osx_env)
   \<and> fs_lookup (fs installed_world) (comps_of (os_flavour osx_env) (SCRIPT_PATH osx_globals) @ [''builds''])
       = Some (Dir [(''install'', Dir
                    [(''osx-dynamic'', Dir
                        [(''lib'', Dir [(''libdiscord-rpc.dylib'', File (Bytes ''dylib''))]),
                         (''include'', Dir [(''discord_rpc.h'', File (Bytes ''header''))])])])])
   \<and> is_abs (os_flavour osx_env) (cwd installed_world)
   \<and> fst (archive osx_env osx_globals installed_world) = None
   \<and> fs_lookup (fs (snd (archive osx_env osx_globals installed_world)))
         [''repo'', ''builds'', ''discord-rpc-osx.zip'']
       = Some (File (Entries
           [(''discord-rpc/osx-dynamic/lib/libdiscord-rpc.dylib'', Bytes ''dylib''),
            (''discord-rpc/osx-dynamic/include/discord_rpc.h'', Bytes ''header'')]))"
proof -
  let ?es = "[(''osx-dynamic'', Dir
                [(''lib'', Dir [(''libdiscord-rpc.dylib'', File (Bytes ''dylib''))]),
                 (''include'', Dir [(''discord_rpc.h'', File (Bytes ''header''))])])]"
  let ?bs = "[(''install'', Dir ?es)]"
  let ?ds = "[(''build.py'', File (Bytes ''#!'')), (''builds'', Dir ?bs)]"
  have mg: "module_globals osx_env = Inr osx_globals"
    by code_simp
  have abs: "is_abs (os_flavour osx_env) (script_dir osx_env)"
    by code_simp
  have builds: "fs_lookup (fs installed_world)
      (comps_of (os_flavour osx_env) (SCRIPT_PATH osx_globals) @ [''builds'']) = Some (Dir ?bs)"
    by code_simp
  have slot: "\<forall>es. map_of ?bs (''discord-rpc-'' @ PLATFORM osx_globals @ ''.zip'') \<noteq> Some (Dir es)"
    "map_of ?bs (''discord-rpc-'' @ PLATFORM osx_globals @ ''.zip'') \<noteq> Some Denied"
    by (simp_all add: osx_globals_def)
  have inst: "map_of ?bs ''install'' = Some (Dir ?es)"
    by simp
  have wf: "wf_node (os_flavour osx_env) (Dir ?es)"
    by code_simp
  have rd: "list_all readable (files_of (Dir ?es))"
    by code_simp
  have cwd: "is_abs (os_flavour osx_env) (cwd installed_world)"
    "fs_lookup (fs installed_world) (comps_of (os_flavour osx_env) (cwd installed_world)) = Some (Dir ?ds)"
    by code_simp+
  have zp: "archive_comps osx_env osx_globals = [''repo'', ''builds'', ''discord-rpc-osx.zip'']"
    by code_simp
  have v: "map member_of (files_of (Dir ?es)) =
           [(''discord-rpc/osx-dynamic/lib/libdiscord-rpc.dylib'', Bytes ''dylib''),
            (''discord-rpc/osx-dynamic/include/discord_rpc.h'', Bytes ''header'')]"
    by code_simp
  from archive_members [OF mg abs builds slot inst wf rd cwd]
  have "fst (archive osx_env osx_globals installed_world) = None"
    and "fs_lookup (fs (snd (archive osx_env osx_globals installed_world)))
           (archive_comps osx_env osx_globals)
         = Some (File (Entries (map member_of (files_of (Dir ?es)))))"
    by blast+
  then show ?thesis
    unfolding zp v using mg abs builds cwd(1) by blast
qed

text \<open>
  C10: \<open>archive\<close> creates the archive file, emptying whatever file was there, before it
  enters the install root. When the install root is not a directory, \<open>archive\<close> raises and
  the empty archive stays on disk. When a file below the install root cannot be read,
  \<open>archive\<close> raises at that file and the archive on disk holds the members written before
  it.
\<close>

theorem archive_not_atomic:
  assumes mg: "module_globals e = Inr g" and abs: "is_abs (os_flavour e) (script_dir e)"
    and builds: "fs_lookup (fs w) (comps_of (os_flavour e) (SCRIPT_PATH g) @ [''builds'']) = Some (Dir bs)"
    and slot: "\<forall>es. map_of bs (''discord-rpc-'' @ PLATFORM g @ ''.zip'') \<noteq> Some (Dir es)"
      "map_of bs (''discord-rpc-'' @ PLATFORM g @ ''.zip'') \<noteq> Some Denied"
  shows "((\<forall>es. map_of bs ''install'' \<noteq> Some (Dir es)) \<longrightarrow>
            fst (archive e g w) \<noteq> None
            \<and> fs_lookup (fs (snd (archive e g w))) (archive_comps e g) = Some (File (Entries [])))
    \<and> (\<forall>es. map_of bs ''install'' = Some (Dir es) \<and> wf_node (os_flavour e) (Dir es)
              \<and> \<not> list_all readable (files_of (Dir es)) \<longrightarrow>
            fst (archive e g w) \<noteq> None
            \<and> fs_lookup (fs (snd (archive e g w))) (archive_comps e g)
                = Some (File (Entries (map member_of (takeWhile readable (files_of (Dir es)))))))"
  using archive_run(1) [OF mg abs builds slot] archive_run(2) [OF mg abs builds slot]
    archive_zip_lookup [OF builds]
  by (auto simp del: files_of.simps)

theorem archive_not_atomic_witness:
  "module_globals linux_env = Inr linux_globals
   \<and> is_abs (os_flavour linux_env) (script_dir linux_env)
   \<and> fst (archive linux_env linux_globals stale_world) \<noteq> None
   \<and> fs_lookup (fs stale_world) [''repo'', ''builds'', ''discord-rpc-linux.zip'']
       = Some (File (Bytes ''old archive''))
   \<and> fs_lookup (fs (snd (archive linux_env linux_globals stale_world)))
         [''repo'', ''builds'', ''discord-rpc-linux.zip'']
       = Some (File (Entries []))
   \<and> fst (archive linux_env linux_globals locked_world) \<noteq> None
   \<and> fs_lookup (fs (snd (archive linux_env linux_globals locked_world)))
         [''repo'', ''builds'', ''discord-rpc-linux.zip'']
       = Some (File (Entries [(''discord-rpc/linux-static/discord_rpc.h'', Bytes ''header'')]))"
proof -
  let ?old = "[(''discord-rpc-linux.zip'', File (Bytes ''old archive''))]"
  let ?es = "[(''linux-static'', Dir
                [(''discord_rpc.h'', File (Bytes ''header'')),
                 (''libdiscord-rpc.a'', Denied),
                 (''readme.txt'', File (Bytes ''text''))])]"
  let ?bs = "[(''install'', Dir ?es)]"
  have mg: "module_globals linux_env = Inr linux_globals"
    by code_simp
  have abs: "is_abs (os_flavour linux_env) (script_dir linux_env)"
    by code_simp
  have zp: "archive_comps linux_env linux_globals = [''repo'', ''builds'', ''discord-rpc-linux.zip'']"
    by code_simp
  have b1: "fs_lookup (fs stale_world)
      (comps_of (os_flavour linux_env) (SCRIPT_PATH linux_globals) @ [''builds'']) = Some (Dir ?old)"
    by code_simp
  have s1: "\<forall>es. map_of ?old (''discord-rpc-'' @ PLATFORM linux_globals @ ''.zip'') \<noteq> Some (Dir es)"
    "map_of ?old (''discord-rpc-'' @ PLATFORM linux_globals @ ''.zip'') \<noteq> Some Denied"
    by (simp_all add: linux_globals_def)
  have n1: "\<forall>es. map_of ?old ''install'' \<noteq> Some (Dir es)"
    by simp
  have o1: "fs_lookup (fs stale_world) [''repo'', ''builds'', ''discord-rpc-linux.zip'']
       = Some (File (Bytes ''old archive''))"
    by code_simp
  from archive_not_atomic [OF mg abs b1 s1] n1
  have r1: "fst (archive linux_env linux_globals stale_world) \<noteq> None"
    "fs_lookup (fs (snd (archive linux_env linux_globals stale_world)))
       (archive_comps linux_env linux_globals) = Some (File (Entries []))"
    by blast+
  have b2: "fs_lookup (fs locked_world)
      (comps_of (os_flavour linux_env) (SCRIPT_PATH linux_globals) @ [''builds'']) = Some (Dir ?bs)"
    by code_simp
  have s2: "\<forall>es. map_of ?bs (''discord-rpc-'' @ PLATFORM linux_globals @ ''.zip'') \<noteq> Some (Dir es)"
    "map_of ?bs (''discord-rpc-'' @ PLATFORM linux_globals @ ''.zip'') \<noteq> Some Denied"
    by (simp_all add: linux_globals_def)
  have i2: "map_of ?bs ''install'' = Some (Dir ?es)"
    by simp
  have wf: "wf_node (os_flavour linux_env) (Dir ?es)"
    by code_simp
  have nr: "\<not> list_all readable (files_of (Dir ?es))"
    by code_simp
  have v: "map member_of (takeWhile readable (files_of (Dir ?es)))
      = [(''discord-rpc/linux-static/discord_rpc.h'', Bytes ''header'')]"
    by code_simp
  from archive_not_atomic [OF mg abs b2 s2] i2 wf nr
  have r2: "fst (archive linux_env linux_globals locked_world) \<noteq> None"
    "fs_lookup (fs (snd (archive linux_env linux_globals locked_world)))
       (archive_comps linux_env linux_globals)
     = Some (File (Entries (map member_of (takeWhile readable (files_of (Dir ?es))))))"
    by blast+
  show ?thesis
    using mg abs o1 r1 r2 unfolding zp v by blast
qed

subsection \<open>The working directory after a failed build\<close>

text \<open>
  The two exits of \<open>with cd(new_dir)\<close>: when the block ends normally, the directory that
  was current before is entered again; when the block raises, the exception leaves with
  the world as the block left it, the working directory included.
\<close>

lemma cd_restores_on_normal_exit:
  assumes run: "cd e new_dir body w = (None, w')" and ne: "new_dir \<noteq> []"
    and abs: "is_abs (os_flavour e) (cwd w)"
    and canon: "abspath_of (os_flavour e) (comps_of (os_flavour e) (cwd w)) = cwd w"
  shows "cwd w' = cwd w"
proof -
  let ?fl = "os_flavour e"
  obtain r1 w1 where c1: "os_chdir ?fl new_dir w = (r1, w1)"
    by (cases "os_chdir ?fl new_dir w")
  obtain r2 w2 where b: "body w1 = (r2, w2)"
    by (cases "body w1")
  have "r1 = None" "r2 = None" and last: "os_chdir ?fl (cwd w) w2 = (None, w')"
    using run ne c1 b by (auto simp: cd_def Let_def os_getcwd_def split: option.splits)
  then show ?thesis
    using canon by (auto simp: os_chdir_def resolve_abs [OF abs] split: option.splits node.splits)
qed

lemma cd_keeps_new_dir_on_exception:
  assumes "new_dir \<noteq> []" and "os_chdir (os_flavour e) new_dir w = (None, w1)"
    and "body w1 = (Some x, w2)"
  shows "cd e new_dir body w = (Some x, w2)"
  using assms by (simp add: cd_def Let_def)

text \<open>
  C1 at a failing configuration step: \<open>build_lib\<close> is called in \<open>/repo\<close>, the step exits
  with status 1, \<open>check_call\<close> raises inside the \<open>with cd(...)\<close> block, and the exception
  leaves \<open>build_lib\<close> with the working directory still the build directory.
\<close>

theorem build_lib_cwd_not_restored:
  "cwd repo_world = ''/repo''
   \<and> build_lib (linux_env\<lparr>exit_status := (\<lambda>d args. 1)\<rparr>) linux_globals ''linux-static'' None []
        repo_world =
      (Some (CalledProcessError 1
          [''cmake'', ''/repo'', ''-DCMAKE_INSTALL_PREFIX=../install/linux-static'']),
       \<lparr>fs = Dir [(''repo'', Dir [(''build.py'', File (Bytes ''#!'')), 
                (''builds'', Dir [(''linux-static'', Dir []), (''install'', Dir [(''linux-static'', Dir [])])])])],
        cwd = ''/repo/builds/linux-static'',
        trace = [Echo ''Making /repo/builds/linux-static'',
                 Echo ''Making /repo/builds/install/linux-static'',
                 Echo ''--- Building linux-static'',
                 Exec ''/repo/builds/linux-static''
                   [''cmake'', ''/repo'', ''-DCMAKE_INSTALL_PREFIX=../install/linux-static'']]\<rparr>)"
  by code_simp

end
